theory Spec2Isabelle
  imports Main
begin

section \<open>Data model\<close>

text \<open>
  The tracker of \<^verbatim>\<open>src/App.tsx\<close>: tasks with progress and focus sessions, a history of
  archived days, a user profile carrying experience points, and the browser's
  \<^verbatim>\<open>localStorage\<close>. The types are declared in \<^verbatim>\<open>./types\<close>, outside \<^verbatim>\<open>App.tsx\<close>; the
  records below carry the fields that \<^verbatim>\<open>App.tsx\<close> itself reads and writes.

  Numbers are integers: counters, targets, experience points and millisecond stamps.
  A field that the code guards against being absent (\<^verbatim>\<open>userProfile.xp || 0\<close>,
  \<^verbatim>\<open>Array.isArray(t.sessions) ? t.sessions : []\<close>) is an \<open>option\<close>.
\<close>

datatype taskType = Count | Duration

record session =
  startTs :: int
  endTs :: int
  durationMs :: int

text \<open>
  A task record is parametric in how it holds its two arrays: a task value holds the
  list of sessions (if the field is an array at all) and the list of tags; a task object
  in the object store further down holds their addresses.
\<close>

record ('s, 'g) task_rec =
  task_id :: string
  title :: string
  category :: string
  task_type :: taskType
  target :: int
  task_unit :: string
  current :: int
  sessions :: 's
  tags :: 'g
  createdAt :: int
  updatedAt :: int

type_synonym task = "(session list option, string list) task_rec"

record rate =
  completionRate :: int

record stats = rate +
  totalFocusTimeMs :: int

record metrics = rate +
  streak :: int
  summary :: string

record dayLog =
  date :: string
  log_tasks :: "task list"
  log_stats :: stats

text \<open>
  The profile is an extensible record: \<open>onboarded\<close> and \<open>xp\<close> are the fields the code
  reads, and the extension part stands for the presentation fields that
  \<^verbatim>\<open>{...userProfile, xp: ...}\<close> copies untouched.
\<close>

record userProfile =
  onboarded :: bool
  xp :: "int option"

record aiConfig =
  name :: string
  gender :: string
  voice :: string
  roles :: "string list"
  behaviors :: "string list"

datatype role = User | Model | System

record chatMessage =
  msg_id :: string
  msg_role :: role
  msg_text :: string
  timestamp :: int

record rewardState =
  isOpen :: bool
  reward_streak :: int
  quote :: string

subsection \<open>localStorage\<close>

text \<open>
  A key that holds JSON is a \<open>slot\<close>: \<open>Absent\<close> when \<^verbatim>\<open>getItem\<close> returns \<^verbatim>\<open>null\<close> or the
  empty string (both fail the \<^verbatim>\<open>if (saved...)\<close> test), \<open>Garbled\<close> when the stored text
  makes \<^verbatim>\<open>JSON.parse\<close> (or the migration that follows it) throw, and \<open>Holds v\<close> when it is
  the JSON text of the value \<open>v\<close>. \<^verbatim>\<open>JSON.parse(JSON.stringify(v))\<close> yields \<open>v\<close> again for
  the plain data of this model, so a slot holds the value rather than its text.
  The theme and the last active date are stored as raw strings.
\<close>

datatype 'a slot = Absent | Garbled | Holds 'a

record 'p storage =
  elevate_user :: "'p userProfile_scheme slot"
  elevate_ai :: "aiConfig slot"
  elevate_theme :: "string option"
  elevate_tasks :: "task list slot"
  elevate_history :: "dayLog list slot"
  elevate_last_date :: "string option"
  elevate_auto_speech :: "bool slot"

subsection \<open>Component state\<close>

record 'p app =
  userProfile :: "'p userProfile_scheme option"
  aiConfig :: aiConfig
  theme :: string
  tasks :: "task list"
  history :: "dayLog list"
  lastActiveDate :: string
  activeTaskForFocus :: "task option"
  rewardState :: rewardState
  isAutoSpeechEnabled :: bool
  messages :: "chatMessage list"
  localStorage :: "'p storage"

type_synonym 'p evaluator =
  "task list \<Rightarrow> dayLog list \<Rightarrow> 'p userProfile_scheme option \<Rightarrow> metrics"

datatype error = SyntaxError

section \<open>Helpers\<close>

definition DEFAULT_AI_CONFIG :: aiConfig where
  "DEFAULT_AI_CONFIG =
     \<lparr>name = ''Coach'', gender = ''Male'', voice = ''Deep'',
      roles = [''Coach'', ''Strategist''],
      behaviors = [''Straightforward'', ''Focus-driven'']\<rparr>"

text \<open>The state of the first render: the arguments of the \<^verbatim>\<open>useState\<close> calls.\<close>

definition initial_app :: "'p storage \<Rightarrow> 'p app" where
  "initial_app ls =
     \<lparr>userProfile = None, aiConfig = DEFAULT_AI_CONFIG, theme = ''Focus'',
      tasks = [], history = [], lastActiveDate = [],
      activeTaskForFocus = None,
      rewardState = \<lparr>isOpen = False, reward_streak = 0, quote = []\<rparr>,
      isAutoSpeechEnabled = False, messages = [], localStorage = ls\<rparr>"

text \<open>\<^verbatim>\<open>userProfile.xp || 0\<close>\<close>

definition xp_or0 :: "'p userProfile_scheme \<Rightarrow> int" where
  "xp_or0 p = (case xp p of None \<Rightarrow> 0 | Some x \<Rightarrow> x)"

definition add_xp :: "int \<Rightarrow> 'p userProfile_scheme \<Rightarrow> 'p userProfile_scheme" where
  "add_xp n p = p\<lparr>xp := Some (xp_or0 p + n)\<rparr>"

text \<open>\<^verbatim>\<open>Array.isArray(t.sessions) ? t.sessions : []\<close>\<close>

definition sessions_or_empty :: "task \<Rightarrow> session list" where
  "sessions_or_empty t = (case sessions t of None \<Rightarrow> [] | Some ss \<Rightarrow> ss)"

text \<open>The migration applied to every loaded task: \<^verbatim>\<open>{...t, sessions: ...}\<close>.\<close>

definition migrate :: "task \<Rightarrow> task" where
  "migrate t = t\<lparr>sessions := Some (sessions_or_empty t)\<rparr>"

text \<open>\<^verbatim>\<open>{...t, current: 0, sessions: [], updatedAt: Date.now()}\<close>\<close>

definition reset_task :: "int \<Rightarrow> task \<Rightarrow> task" where
  "reset_task now t = t\<lparr>current := 0, sessions := Some [], updatedAt := now\<rparr>"

text \<open>
  \<^verbatim>\<open>JSON.parse(JSON.stringify(tasks))\<close>: the same value, rebuilt. Values of this model
  carry no object identity; the object store further down models the identities.
\<close>

definition json_copy :: "task list \<Rightarrow> task list" where
  "json_copy ts = ts"

text \<open>
  \<^verbatim>\<open>Math.round(durationMs / 60000)\<close> for a whole number of milliseconds: the nearest
  integer, a half rounding up (\<open>div\<close> on \<open>int\<close> rounds down).
\<close>

definition round_minutes :: "int \<Rightarrow> int" where
  "round_minutes ms = (ms + 30000) div 60000"

text \<open>The decimal text of a number, as \<^verbatim>\<open>toString()\<close> and a template literal give it.\<close>

function decimal_nat :: "nat \<Rightarrow> string" where
  "decimal_nat n =
     (if n < 10 then [''0123456789'' ! n]
      else decimal_nat (n div 10) @ [''0123456789'' ! (n mod 10)])"
  by pat_completeness auto
termination
  by (relation "measure (\<lambda>n. n)") auto

definition decimal :: "int \<Rightarrow> string" where
  "decimal i = (if i < 0 then CHR ''-'' # decimal_nat (nat (- i)) else decimal_nat (nat i))"

text \<open>A JavaScript string is truthy when it is neither \<^verbatim>\<open>null\<close> nor empty.\<close>

definition truthy :: "string option \<Rightarrow> bool" where
  "truthy s = (case s of None \<Rightarrow> False | Some v \<Rightarrow> v \<noteq> [])"

text \<open>\<^verbatim>\<open>JSON.parse\<close> on a slot read outside any \<^verbatim>\<open>try\<close>: a garbled text throws.\<close>

definition parse_or :: "'a \<Rightarrow> 'a slot \<Rightarrow> error + 'a" where
  "parse_or dflt s = (case s of Absent \<Rightarrow> Inr dflt | Garbled \<Rightarrow> Inl SyntaxError | Holds v \<Rightarrow> Inr v)"

section \<open>Operations\<close>

text \<open>
  A handler or an effect runs to completion on the state of the render it belongs to.
  It is a function from that state (with the store) to the next one: a call
  \<^verbatim>\<open>setX(v)\<close> is the update of the field, in the order of the calls, and a later call on
  the same field replaces an earlier one. The clock is read several times during one
  run; the model uses one reading \<open>now\<close> for all of them and takes the text of today's
  date as an argument of its own.
\<close>

subsection \<open>The start-up effect with the automatic day rollover\<close>

text \<open>
  \<^verbatim>\<open>App.tsx\<close> lines 67--161, run once when the component mounts. \<open>ev\<close> is
  \<^verbatim>\<open>runEvaluator\<close> (of \<^verbatim>\<open>./utils/tracker\<close>, a parameter here), \<open>todayStr\<close> the text
  \<^verbatim>\<open>new Date().toISOString().split('T')[0]\<close> and \<open>now\<close> the reading of \<^verbatim>\<open>Date.now()\<close>.
  Lines 75--119 load the stored state (\<open>load_state\<close>).
  The profile, the AI configuration, the speech flag and the history are parsed outside
  any \<^verbatim>\<open>try\<close>: a garbled text there ends the effect with the exception, before anything
  is written. A garbled task list is caught and leaves the list empty.
\<close>

definition load_tasks :: "task list slot \<Rightarrow> task list" where
  "load_tasks s = (case s of Holds ts \<Rightarrow> map migrate ts | _ \<Rightarrow> [])"

definition hasProgress :: "task list \<Rightarrow> bool" where
  "hasProgress ts = list_ex (\<lambda>t. current t > 0) ts"

definition rollover_log :: "'p evaluator \<Rightarrow> string \<Rightarrow> task list \<Rightarrow> dayLog list \<Rightarrow> dayLog" where
  "rollover_log ev savedLastDate currentTasks currentHistory =
     \<lparr>date = savedLastDate, log_tasks = json_copy currentTasks,
      log_stats = \<lparr>completionRate = completionRate (ev currentTasks currentHistory None),
                   totalFocusTimeMs = 0\<rparr>\<rparr>"

definition load_state :: "int \<Rightarrow> 'p storage \<Rightarrow> error + 'p app" where
  "load_state now ls =
     (case parse_or None (case elevate_user ls of Absent \<Rightarrow> Absent | Garbled \<Rightarrow> Garbled
                                                 | Holds p \<Rightarrow> Holds (Some p)) of
        Inl e \<Rightarrow> Inl e
      | Inr savedUser \<Rightarrow>
     (case parse_or DEFAULT_AI_CONFIG (elevate_ai ls) of
        Inl e \<Rightarrow> Inl e
      | Inr ai \<Rightarrow>
     (case parse_or False (elevate_auto_speech ls) of
        Inl e \<Rightarrow> Inl e
      | Inr autoSpeech \<Rightarrow>
     (case parse_or [] (elevate_history ls) of
        Inl e \<Rightarrow> Inl e
      | Inr currentHistory \<Rightarrow>
          Inr ((initial_app ls)
                 \<lparr>userProfile := savedUser, aiConfig := ai,
                  theme := (if truthy (elevate_theme ls) then the (elevate_theme ls) else ''Focus''),
                  isAutoSpeechEnabled := autoSpeech,
                  tasks := load_tasks (elevate_tasks ls), history := currentHistory,
                  lastActiveDate := (if truthy (elevate_last_date ls)
                                     then the (elevate_last_date ls) else []),
                  messages := (if savedUser \<noteq> None
                               then [\<lparr>msg_id = ''init'', msg_role = Model,
                                      msg_text = ''Tracker active. Engine ready. How are we executing today?'',
                                      timestamp = now\<rparr>]
                               else [])\<rparr>)))))"

text \<open>
  Lines 121--158, the part headed \<^verbatim>\<open>AUTOMATIC DAY ROLLOVER LOGIC\<close>. It runs on the
  loaded state \<open>a\<close>: \<^verbatim>\<open>currentTasks\<close> and \<^verbatim>\<open>currentHistory\<close> are the lists just given to
  \<^verbatim>\<open>setTasks\<close> and \<^verbatim>\<open>setHistory\<close> (or still empty), and \<^verbatim>\<open>savedLastDate\<close> is the stored
  text, which nothing has written yet.
\<close>

definition automatic_rollover :: "'p evaluator \<Rightarrow> string \<Rightarrow> int \<Rightarrow> 'p app \<Rightarrow> 'p app" where
  "automatic_rollover ev todayStr now a =
     (let savedLastDate = elevate_last_date (localStorage a);
          currentTasks = tasks a;
          currentHistory = history a
      in if truthy savedLastDate \<and> savedLastDate \<noteq> Some todayStr then
           (let newHist = (if hasProgress currentTasks
                           then currentHistory @
                                [rollover_log ev (the savedLastDate) currentTasks currentHistory]
                           else currentHistory);
                ls1 = (if hasProgress currentTasks
                       then (localStorage a)\<lparr>elevate_history := Holds newHist\<rparr>
                       else localStorage a);
                resetTasks = map (reset_task now) currentTasks
            in a\<lparr>history := newHist, tasks := resetTasks,
                  lastActiveDate := todayStr,
                  messages := messages a @
                    [\<lparr>msg_id = decimal now, msg_role = System,
                      msg_text = ''New day detected. Previous data from '' @ the savedLastDate
                                 @ '' has been archived.'',
                      timestamp = now\<rparr>],
                  localStorage := ls1\<lparr>elevate_tasks := Holds resetTasks,
                                       elevate_last_date := Some todayStr\<rparr>\<rparr>)
         else if \<not> truthy savedLastDate then
           a\<lparr>lastActiveDate := todayStr,
             localStorage := (localStorage a)\<lparr>elevate_last_date := Some todayStr\<rparr>\<rparr>
         else a)"

definition startup :: "'p evaluator \<Rightarrow> string \<Rightarrow> int \<Rightarrow> 'p storage \<Rightarrow> error + 'p app" where
  "startup ev todayStr now ls =
     (case load_state now ls of
        Inl e \<Rightarrow> Inl e
      | Inr a \<Rightarrow> Inr (automatic_rollover ev todayStr now a))"

subsection \<open>The persistence effect\<close>

text \<open>
  Lines 176--185: runs after every render in which the profile, the AI configuration,
  the theme, the tasks, the history or the speech flag changed.
\<close>

definition persist :: "string \<Rightarrow> 'p app \<Rightarrow> 'p app" where
  "persist todayStr a =
     a\<lparr>localStorage :=
         (localStorage a)
           \<lparr>elevate_user := (case userProfile a of None \<Rightarrow> elevate_user (localStorage a)
                                                  | Some p \<Rightarrow> Holds p),
            elevate_ai := Holds (aiConfig a),
            elevate_theme := Some (theme a),
            elevate_tasks := Holds (tasks a),
            elevate_history := Holds (history a),
            elevate_auto_speech := Holds (isAutoSpeechEnabled a),
            elevate_last_date := Some todayStr\<rparr>\<rparr>"

subsection \<open>Ending the day by hand\<close>

text \<open>
  Lines 293--338. \<open>q\<close> is the text \<^verbatim>\<open>getRandomQuote()\<close> returns. The setters are given
  values computed from the state of the render the handler belongs to, which is the
  argument \<open>a\<close>.
\<close>

definition bonusXp :: "int \<Rightarrow> int" where
  "bonusXp r = (if r \<ge> 80 then 100 else if r \<ge> 50 then 50 else 0)"

definition endDay_log :: "'p evaluator \<Rightarrow> string \<Rightarrow> 'p app \<Rightarrow> dayLog" where
  "endDay_log ev todayStr a =
     \<lparr>date = todayStr, log_tasks = json_copy (tasks a),
      log_stats = \<lparr>completionRate = completionRate (ev (tasks a) (history a) (userProfile a)),
                   totalFocusTimeMs = 0\<rparr>\<rparr>"

definition performEndDay :: "'p evaluator \<Rightarrow> string \<Rightarrow> string \<Rightarrow> int \<Rightarrow> 'p app \<Rightarrow> 'p app" where
  "performEndDay ev q todayStr now a =
     (let m = ev (tasks a) (history a) (userProfile a);
          bonus = bonusXp (completionRate m);
          newHistory = history a @ [endDay_log ev todayStr a];
          resetTasks = map (reset_task now) (tasks a)
      in a\<lparr>history := newHistory,
            tasks := resetTasks,
            userProfile := map_option (add_xp bonus) (userProfile a),
            messages := messages a @
              [\<lparr>msg_id = decimal now, msg_role = Model,
                msg_text = ''Day archived. You gained '' @ decimal bonus @ '' XP. Summary: '' @ summary m,
                timestamp = now\<rparr>],
            rewardState := (if streak m > 0
                            then \<lparr>isOpen = True, reward_streak = streak m, quote = q\<rparr>
                            else rewardState a),
            localStorage := (localStorage a)\<lparr>elevate_history := Holds newHistory,
                                             elevate_tasks := Holds resetTasks\<rparr>\<rparr>)"

subsection \<open>Task updates and focus sessions\<close>

text \<open>Lines 263--272.\<close>

definition completedNow :: "task list \<Rightarrow> task \<Rightarrow> bool" where
  "completedNow ts updatedTask =
     (case find (\<lambda>t. task_id t = task_id updatedTask) ts of
        None \<Rightarrow> False
      | Some oldTask \<Rightarrow> current oldTask < target oldTask \<and> current updatedTask \<ge> target updatedTask)"

definition updateTask :: "task \<Rightarrow> 'p app \<Rightarrow> 'p app" where
  "updateTask updatedTask a =
     a\<lparr>tasks := map (\<lambda>t. if task_id t = task_id updatedTask then updatedTask else t) (tasks a),
       userProfile := (if completedNow (tasks a) updatedTask
                       then map_option (add_xp 50) (userProfile a) else userProfile a)\<rparr>"

text \<open>
  Lines 340--359. The second \<^verbatim>\<open>setUserProfile\<close> is given a value computed from the
  profile of the same render, so it replaces what \<^verbatim>\<open>updateTask\<close> has set.
\<close>

definition focus_update :: "int \<Rightarrow> int \<Rightarrow> task \<Rightarrow> task" where
  "focus_update now ms t =
     t\<lparr>current := (if task_type t = Duration then current t + round_minutes ms else current t),
       sessions := Some (sessions_or_empty t @
                         [\<lparr>startTs = now - ms, endTs = now, durationMs = ms\<rparr>])\<rparr>"

definition handleFocusSessionEnd :: "int \<Rightarrow> int \<Rightarrow> 'p app \<Rightarrow> 'p app" where
  "handleFocusSessionEnd now ms a =
     (case activeTaskForFocus a of
        None \<Rightarrow> a
      | Some t \<Rightarrow>
          (let durationMin = round_minutes ms;
               a1 = updateTask (focus_update now ms t) a;
               a2 = (case userProfile a of
                       Some p \<Rightarrow> if durationMin > 0
                                 then a1\<lparr>userProfile := Some (add_xp (durationMin * 2) p)\<rparr> else a1
                     | None \<Rightarrow> a1)
           in a2\<lparr>activeTaskForFocus := None\<rparr>))"

section \<open>The object store\<close>

text \<open>
  The operations above work on values. For the question of which objects the archived
  snapshot shares with the live task list, the arrays and objects behind those values
  are placed in a store: a list of cells, the address of a cell being its index. A new
  object or array literal appends a cell; nothing is ever freed.

  A task array holds the addresses of task objects; a task object holds the address of
  its sessions array (when the field is an array) and of its tags array; a sessions
  array holds the addresses of session objects. Strings and numbers are immutable and
  live inside the cells.
\<close>

type_synonym addr = nat

type_synonym task_obj = "(addr option, addr) task_rec"

datatype cell =
    SessionCell session
  | SessionsCell "addr list"
  | TagsCell "string list"
  | TaskCell task_obj
  | TasksCell "addr list"

type_synonym store = "cell list"

definition lookup :: "store \<Rightarrow> addr \<Rightarrow> cell option" where
  "lookup h a = (if a < length h then Some (h ! a) else None)"

definition alloc :: "cell \<Rightarrow> store \<Rightarrow> addr \<times> store" where
  "alloc c h = (length h, h @ [c])"

text \<open>The scalar fields of a task record, with the two array fields given anew.\<close>

definition with_arrays :: "('s, 'g) task_rec \<Rightarrow> 's2 \<Rightarrow> 'g2 \<Rightarrow> ('s2, 'g2) task_rec" where
  "with_arrays t ss g =
     \<lparr>task_id = task_id t, title = title t, category = category t, task_type = task_type t,
      target = target t, task_unit = task_unit t, current = current t, sessions = ss,
      tags = g, createdAt = createdAt t, updatedAt = updatedAt t\<rparr>"

subsection \<open>Reading a value out of the store\<close>

text \<open>
  What \<^verbatim>\<open>JSON.stringify\<close> writes down: the value an address stands for, found by
  following the addresses. A dangling address or a cell of the wrong kind gives \<open>None\<close>.
\<close>

definition read_session :: "store \<Rightarrow> addr \<Rightarrow> session option" where
  "read_session h a = (case lookup h a of Some (SessionCell s) \<Rightarrow> Some s | _ \<Rightarrow> None)"

definition read_sessions :: "store \<Rightarrow> addr \<Rightarrow> session list option" where
  "read_sessions h a =
     (case lookup h a of Some (SessionsCell as) \<Rightarrow> those (map (read_session h) as) | _ \<Rightarrow> None)"

definition read_tags :: "store \<Rightarrow> addr \<Rightarrow> string list option" where
  "read_tags h a = (case lookup h a of Some (TagsCell g) \<Rightarrow> Some g | _ \<Rightarrow> None)"

definition read_sessions_field :: "store \<Rightarrow> addr option \<Rightarrow> session list option option" where
  "read_sessions_field h r =
     (case r of None \<Rightarrow> Some None | Some sa \<Rightarrow> map_option Some (read_sessions h sa))"

definition read_task :: "store \<Rightarrow> addr \<Rightarrow> task option" where
  "read_task h a =
     (case lookup h a of
        Some (TaskCell obj) \<Rightarrow>
          (case read_sessions_field h (sessions obj) of
             None \<Rightarrow> None
           | Some ss \<Rightarrow>
               (case read_tags h (tags obj) of
                  None \<Rightarrow> None
                | Some g \<Rightarrow> Some (with_arrays obj ss g)))
      | _ \<Rightarrow> None)"

definition read_tasks :: "store \<Rightarrow> addr \<Rightarrow> task list option" where
  "read_tasks h a =
     (case lookup h a of Some (TasksCell as) \<Rightarrow> those (map (read_task h) as) | _ \<Rightarrow> None)"

subsection \<open>Building a value in the store\<close>

text \<open>
  What \<^verbatim>\<open>JSON.parse\<close> does with the text of a value: every array and every object of
  the value becomes a new cell.
\<close>

fun build_list :: "('a \<Rightarrow> store \<Rightarrow> addr \<times> store) \<Rightarrow> 'a list \<Rightarrow> store \<Rightarrow> addr list \<times> store" where
  "build_list f [] h = ([], h)"
| "build_list f (x # xs) h =
     (case f x h of (a, h1) \<Rightarrow> (case build_list f xs h1 of (as, h2) \<Rightarrow> (a # as, h2)))"

definition build_session :: "session \<Rightarrow> store \<Rightarrow> addr \<times> store" where
  "build_session s h = alloc (SessionCell s) h"

definition build_sessions :: "session list \<Rightarrow> store \<Rightarrow> addr \<times> store" where
  "build_sessions ss h =
     (case build_list build_session ss h of (as, h1) \<Rightarrow> alloc (SessionsCell as) h1)"

definition build_sessions_field :: "session list option \<Rightarrow> store \<Rightarrow> addr option \<times> store" where
  "build_sessions_field f h =
     (case f of None \<Rightarrow> (None, h)
      | Some ss \<Rightarrow> (case build_sessions ss h of (a, h1) \<Rightarrow> (Some a, h1)))"

definition build_task :: "task \<Rightarrow> store \<Rightarrow> addr \<times> store" where
  "build_task t h =
     (case build_sessions_field (sessions t) h of
        (sa, h1) \<Rightarrow> (case alloc (TagsCell (tags t)) h1 of
           (ga, h2) \<Rightarrow> alloc (TaskCell (with_arrays t sa ga)) h2))"

definition build_tasks :: "task list \<Rightarrow> store \<Rightarrow> addr \<times> store" where
  "build_tasks ts h =
     (case build_list build_task ts h of (as, h1) \<Rightarrow> alloc (TasksCell as) h1)"

text \<open>\<^verbatim>\<open>JSON.parse(JSON.stringify(tasks))\<close> on the array at address \<open>a\<close>.\<close>

definition json_copy_store :: "addr \<Rightarrow> store \<Rightarrow> (addr \<times> store) option" where
  "json_copy_store a h = (case read_tasks h a of None \<Rightarrow> None | Some ts \<Rightarrow> Some (build_tasks ts h))"

subsection \<open>The reset in the store\<close>

text \<open>
  \<^verbatim>\<open>tasks.map(t => ({...t, current: 0, sessions: [], updatedAt: Date.now()}))\<close>: for
  every task object a new empty array and a new object; the spread copies the other
  fields, so the new object holds the address of the old object's tags array. The
  results go into a new array. No existing cell is written.
\<close>

definition reset_obj :: "int \<Rightarrow> addr \<Rightarrow> store \<Rightarrow> (addr \<times> store) option" where
  "reset_obj now a h =
     (case lookup h a of
        Some (TaskCell obj) \<Rightarrow>
          (case alloc (SessionsCell []) h of
             (sa, h1) \<Rightarrow>
               Some (alloc (TaskCell (obj\<lparr>current := 0, sessions := Some sa, updatedAt := now\<rparr>)) h1))
      | _ \<Rightarrow> None)"

fun map_store :: "(addr \<Rightarrow> store \<Rightarrow> (addr \<times> store) option) \<Rightarrow> addr list \<Rightarrow> store
    \<Rightarrow> (addr list \<times> store) option" where
  "map_store f [] h = Some ([], h)"
| "map_store f (a # as) h =
     (case f a h of
        None \<Rightarrow> None
      | Some (b, h1) \<Rightarrow>
          (case map_store f as h1 of None \<Rightarrow> None | Some (bs, h2) \<Rightarrow> Some (b # bs, h2)))"

definition reset_store :: "int \<Rightarrow> addr \<Rightarrow> store \<Rightarrow> (addr \<times> store) option" where
  "reset_store now a h =
     (case lookup h a of
        Some (TasksCell as) \<Rightarrow>
          (case map_store (reset_obj now) as h of
             None \<Rightarrow> None
           | Some (bs, h1) \<Rightarrow> Some (alloc (TasksCell bs) h1))
      | _ \<Rightarrow> None)"

subsection \<open>Archive and reset on both paths\<close>

text \<open>
  \<^verbatim>\<open>performEndDay\<close>, lines 303 and 314: the snapshot for the day log, then the reset of
  the array \<open>live\<close> that the state variable \<^verbatim>\<open>tasks\<close> holds. The result is the address of
  the snapshot, the address of the reset array and the store.
\<close>

definition performEndDay_store :: "int \<Rightarrow> addr \<Rightarrow> store \<Rightarrow> (addr \<times> addr \<times> store) option" where
  "performEndDay_store now live h =
     (case json_copy_store live h of
        None \<Rightarrow> None
      | Some (snap, h1) \<Rightarrow>
          (case reset_store now live h1 of
             None \<Rightarrow> None
           | Some (live', h2) \<Rightarrow> Some (snap, live', h2)))"

text \<open>
  The rollover of the start-up effect, lines 124--143, on the array \<^verbatim>\<open>currentTasks\<close>:
  the snapshot is taken only when a task has progress.
\<close>

definition automatic_rollover_store ::
    "int \<Rightarrow> addr \<Rightarrow> store \<Rightarrow> (addr option \<times> addr \<times> store) option" where
  "automatic_rollover_store now currentTasks h =
     (case read_tasks h currentTasks of
        None \<Rightarrow> None
      | Some ts \<Rightarrow>
          if hasProgress ts then
            (case json_copy_store currentTasks h of
               None \<Rightarrow> None
             | Some (snap, h1) \<Rightarrow>
                 (case reset_store now currentTasks h1 of
                    None \<Rightarrow> None
                  | Some (live', h2) \<Rightarrow> Some (Some snap, live', h2)))
          else
            (case reset_store now currentTasks h of
               None \<Rightarrow> None
             | Some (live', h2) \<Rightarrow> Some (None, live', h2)))"

subsection \<open>Footprints and later mutation\<close>

text \<open>The addresses that reading a value visits.\<close>

definition fp_sessions :: "store \<Rightarrow> addr \<Rightarrow> addr set" where
  "fp_sessions h a = insert a (case lookup h a of Some (SessionsCell as) \<Rightarrow> set as | _ \<Rightarrow> {})"

definition fp_task :: "store \<Rightarrow> addr \<Rightarrow> addr set" where
  "fp_task h a =
     insert a (case lookup h a of
                 Some (TaskCell obj) \<Rightarrow>
                   insert (tags obj)
                     (case sessions obj of None \<Rightarrow> {} | Some sa \<Rightarrow> fp_sessions h sa)
               | _ \<Rightarrow> {})"

definition fp_tasks :: "store \<Rightarrow> addr \<Rightarrow> addr set" where
  "fp_tasks h a =
     insert a (case lookup h a of Some (TasksCell as) \<Rightarrow> \<Union> (set (map (fp_task h) as)) | _ \<Rightarrow> {})"

text \<open>
  Whatever the program does to the store later is a sequence of writes into existing
  cells (an assignment to a field or an element, a \<^verbatim>\<open>push\<close>) and of allocations.
\<close>

datatype store_op = Write addr cell | Alloc cell

fun apply_op :: "store_op \<Rightarrow> store \<Rightarrow> store" where
  "apply_op (Write x c) h = h[x := c]"
| "apply_op (Alloc c) h = h @ [c]"

fun writes_outside :: "addr set \<Rightarrow> store_op list \<Rightarrow> bool" where
  "writes_outside S [] = True"
| "writes_outside S (Write x c # ops) = (x \<notin> S \<and> writes_outside S ops)"
| "writes_outside S (Alloc c # ops) = writes_outside S ops"

section \<open>Vocabulary of the statements\<close>

text \<open>
  The stored texts that the start-up effect parses outside a \<^verbatim>\<open>try\<close> are all readable.
\<close>

definition parses :: "'p storage \<Rightarrow> bool" where
  "parses ls = (elevate_user ls \<noteq> Garbled \<and> elevate_ai ls \<noteq> Garbled
                \<and> elevate_auto_speech ls \<noteq> Garbled \<and> elevate_history ls \<noteq> Garbled)"

definition stored_history :: "'p storage \<Rightarrow> dayLog list" where
  "stored_history ls = (case elevate_history ls of Holds h \<Rightarrow> h | _ \<Rightarrow> [])"

definition stored_profile :: "'p storage \<Rightarrow> 'p userProfile_scheme option" where
  "stored_profile ls = (case elevate_user ls of Holds p \<Rightarrow> Some p | _ \<Rightarrow> None)"

subsection \<open>Sample data\<close>

text \<open>
  An evaluator for the examples; the theorems below hold for every evaluator.
\<close>

definition sample_evaluator :: "unit evaluator" where
  "sample_evaluator ts h p = \<lparr>completionRate = 0, streak = 0, summary = ''No progress yet.''\<rparr>"

definition ex_task :: task where
  "ex_task = \<lparr>task_id = ''1704067200000'', title = ''Read'', category = ''General'',
              task_type = Duration, target = 60, task_unit = ''min'', current = 0,
              sessions = Some [], tags = [], createdAt = 1704067200000,
              updatedAt = 1704067200000\<rparr>"

definition ex_count_task :: task where
  "ex_count_task = \<lparr>task_id = ''1704067200001'', title = ''Push-ups'', category = ''General'',
              task_type = Count, target = 10, task_unit = ''reps'', current = 5,
              sessions = Some [], tags = [], createdAt = 1704067200001,
              updatedAt = 1704067200001\<rparr>"

definition ex_profile :: userProfile where
  "ex_profile = \<lparr>onboarded = True, xp = Some 0\<rparr>"

definition ex_storage :: "unit storage" where
  "ex_storage = \<lparr>elevate_user = Holds ex_profile, elevate_ai = Absent, elevate_theme = None,
                 elevate_tasks = Holds [ex_count_task], elevate_history = Absent,
                 elevate_last_date = Some ''2024-01-01'', elevate_auto_speech = Absent\<rparr>"

definition ex_app :: "task \<Rightarrow> unit app" where
  "ex_app t = (initial_app ex_storage)\<lparr>userProfile := Some ex_profile, tasks := [t],
                                      activeTaskForFocus := Some t\<rparr>"

definition ex_storage_idle :: "unit storage" where
  "ex_storage_idle = ex_storage\<lparr>elevate_tasks := Holds [ex_task]\<rparr>"

definition ex_storage_fresh :: "unit storage" where
  "ex_storage_fresh = ex_storage\<lparr>elevate_last_date := None\<rparr>"

text \<open>
  A store with one task that has progress, one session and one tag, built from empty:
  the session object at 0, the sessions array at 1, the tags array at 2, the task
  object at 3 and the task array at 4.
\<close>

definition ex_session_task :: task where
  "ex_session_task = ex_task\<lparr>current := 25, tags := [''focus''],
       sessions := Some [\<lparr>startTs = 1704067200000, endTs = 1704068700000,
                          durationMs = 1500000\<rparr>]\<rparr>"

definition ex_live :: addr where
  "ex_live = fst (build_tasks [ex_session_task] [])"

definition ex_store :: store where
  "ex_store = snd (build_tasks [ex_session_task] [])"

text \<open>
  A profile that already has points, and an evaluator that reports a good day with a
  running streak.
\<close>

definition ex_profile_40 :: userProfile where
  "ex_profile_40 = \<lparr>onboarded = True, xp = Some 40\<rparr>"

definition ex_app_40 :: "task \<Rightarrow> unit app" where
  "ex_app_40 t = (ex_app t)\<lparr>userProfile := Some ex_profile_40\<rparr>"

definition good_day_evaluator :: "unit evaluator" where
  "good_day_evaluator ts h p = \<lparr>completionRate = 85, streak = 2, summary = ''Strong day.''\<rparr>"

section \<open>Properties of the reset and of the migration\<close>

lemma reset_all: "list_all (\<lambda>t. current t = 0 \<and> sessions t = Some []) (map (reset_task n) ts)"
  by (induction ts) (simp_all add: reset_task_def)


lemma migrate_frame:
  "map task_id (map migrate ts) = map task_id ts"
  "map title (map migrate ts) = map title ts"
  "map target (map migrate ts) = map target ts"
  "map task_unit (map migrate ts) = map task_unit ts"
  by (simp_all add: migrate_def comp_def)

lemma migrate_reset: "migrate (reset_task n t) = reset_task n t"
  by (simp add: migrate_def reset_task_def sessions_or_empty_def)

lemma migrate_idem: "migrate (migrate t) = migrate t"
  by (simp add: migrate_def sessions_or_empty_def)

lemma list_ex_migrate:
  "list_ex (\<lambda>t. current t > 0) (map migrate ts) = list_ex (\<lambda>t. current t > 0) ts"
  by (induction ts) (simp_all add: migrate_def)

lemma load_tasks_reset: "load_tasks (Holds (map (reset_task n) ts)) = map (reset_task n) ts"
  by (simp add: load_tasks_def migrate_reset)

lemma load_tasks_idem: "load_tasks (Holds (load_tasks s)) = load_tasks s"
  by (cases s) (simp_all add: load_tasks_def migrate_idem)

section \<open>Loading the stored state\<close>

lemma load_state_parses:
  assumes "parses ls"
  shows "\<exists>a. load_state n ls = Inr a"
  using assms
  by (simp add: parses_def load_state_def parse_or_def split: slot.splits)

lemma load_state_Inr:
  assumes "load_state n ls = Inr a"
  shows "parses ls" "tasks a = load_tasks (elevate_tasks ls)" "history a = stored_history ls"
    "userProfile a = stored_profile ls" "localStorage a = ls"
    "lastActiveDate a = (if truthy (elevate_last_date ls) then the (elevate_last_date ls) else [])"
  using assms
  by (auto simp: parses_def load_state_def parse_or_def initial_app_def stored_history_def
        stored_profile_def split: slot.splits)

lemma parses_upd:
  "parses (ls\<lparr>elevate_last_date := x\<rparr>) = parses ls"
  "parses (ls\<lparr>elevate_tasks := y\<rparr>) = parses ls"
  "parses (ls\<lparr>elevate_history := Holds h\<rparr>) =
     (elevate_user ls \<noteq> Garbled \<and> elevate_ai ls \<noteq> Garbled \<and> elevate_auto_speech ls \<noteq> Garbled)"
  by (simp_all add: parses_def)

lemma stored_history_upd:
  "stored_history (ls\<lparr>elevate_last_date := x\<rparr>) = stored_history ls"
  "stored_history (ls\<lparr>elevate_tasks := y\<rparr>) = stored_history ls"
  "stored_history (ls\<lparr>elevate_history := Holds h\<rparr>) = h"
  by (simp_all add: stored_history_def)

section \<open>The three branches of the rollover check\<close>

lemma rollover_newday:
  assumes "elevate_last_date (localStorage a) = Some sd" "sd \<noteq> []" "sd \<noteq> d"
  shows "tasks (automatic_rollover ev d n a) = map (reset_task n) (tasks a)"
    "lastActiveDate (automatic_rollover ev d n a) = d"
    "userProfile (automatic_rollover ev d n a) = userProfile a"
    "history (automatic_rollover ev d n a) =
       (if hasProgress (tasks a) then history a @ [rollover_log ev sd (tasks a) (history a)]
        else history a)"
    "localStorage (automatic_rollover ev d n a) =
       (localStorage a)\<lparr>elevate_history :=
            (if hasProgress (tasks a)
             then Holds (history a @ [rollover_log ev sd (tasks a) (history a)])
             else elevate_history (localStorage a)),
          elevate_tasks := Holds (map (reset_task n) (tasks a)),
          elevate_last_date := Some d\<rparr>"
  using assms by (simp_all add: automatic_rollover_def truthy_def Let_def)

lemma rollover_firstrun:
  assumes "\<not> truthy (elevate_last_date (localStorage a))"
  shows "automatic_rollover ev d n a =
           a\<lparr>lastActiveDate := d, localStorage := (localStorage a)\<lparr>elevate_last_date := Some d\<rparr>\<rparr>"
  using assms by (simp add: automatic_rollover_def Let_def)

lemma rollover_sameday:
  assumes "elevate_last_date (localStorage a) = Some d" "d \<noteq> []"
  shows "automatic_rollover ev d n a = a"
  using assms by (simp add: automatic_rollover_def truthy_def Let_def)

lemma rollover_at_today:
  assumes "elevate_last_date (localStorage b) = Some d"
  shows "tasks (automatic_rollover ev d n b) = tasks b"
    "history (automatic_rollover ev d n b) = history b"
    "localStorage (automatic_rollover ev d n b) = localStorage b"
    "lastActiveDate (automatic_rollover ev d n b) = (if d = [] then d else lastActiveDate b)"
  using assms by (simp_all add: automatic_rollover_def truthy_def Let_def)

text \<open>What every completed start-up leaves behind, whichever branch it took.\<close>

lemma startup_post:
  assumes "startup ev d n ls = Inr a"
  shows "parses (localStorage a)" "elevate_last_date (localStorage a) = Some d"
    "load_tasks (elevate_tasks (localStorage a)) = tasks a"
    "stored_history (localStorage a) = history a" "lastActiveDate a = d"
proof -
  from assms obtain a0 where a0: "load_state n ls = Inr a0"
    and a: "a = automatic_rollover ev d n a0"
    by (auto simp: startup_def split: sum.splits)
  note f = load_state_Inr [OF a0]
  consider (first) "\<not> truthy (elevate_last_date ls)"
    | (same) "elevate_last_date ls = Some d" "d \<noteq> []"
    | (new) sd where "elevate_last_date ls = Some sd" "sd \<noteq> []" "sd \<noteq> d"
    by (cases "elevate_last_date ls") (auto simp: truthy_def)
  then have "parses (localStorage a) \<and> elevate_last_date (localStorage a) = Some d
    \<and> load_tasks (elevate_tasks (localStorage a)) = tasks a
    \<and> stored_history (localStorage a) = history a \<and> lastActiveDate a = d"
  proof cases
    case first
    then have "\<not> truthy (elevate_last_date (localStorage a0))"
      using f(5) by simp
    from rollover_firstrun [OF this, of ev d n] show ?thesis
      using f(1,2,3,5) by (simp add: a parses_upd stored_history_upd load_tasks_idem)
  next
    case same
    then have "elevate_last_date (localStorage a0) = Some d"
      using f(5) by simp
    from rollover_sameday [OF this same(2), of ev n] show ?thesis
      using f same by (simp add: a load_tasks_idem truthy_def)
  next
    case new
    then have sd: "elevate_last_date (localStorage a0) = Some sd"
      using f(5) by simp
    note r = rollover_newday [OF sd new(2) new(3), of ev n]
    show ?thesis
      using f(1,2,3,5) r(1,2,4)
      by (simp add: a r(5) parses_upd stored_history_upd load_tasks_reset parses_def)
  qed
  then show "parses (localStorage a)" "elevate_last_date (localStorage a) = Some d"
    "load_tasks (elevate_tasks (localStorage a)) = tasks a"
    "stored_history (localStorage a) = history a" "lastActiveDate a = d"
    by simp_all
qed

section \<open>Ending the day by hand\<close>

text \<open>
  Claim C1. For every task list (also one without any progress) and every history, the
  manual end of day appends exactly one day log to the history, in the state and in the
  store: today's date, the tasks as they are before the reset, and the computed
  completion rate. It resets every task. A profile with \<open>xp = x\<close> gets
  \<open>xp = x + bonus\<close> (a profile without the field counts as 0), where the bonus is 100
  when the computed completion rate is at least 80, 50 when it is at least 50, and 0
  otherwise.
\<close>

theorem performEndDay_archives_resets_awards:
  "history (performEndDay ev q d n a) =
       history a @ [\<lparr>date = d, log_tasks = tasks a,
                      log_stats = \<lparr>completionRate =
                                      completionRate (ev (tasks a) (history a) (userProfile a)),
                                   totalFocusTimeMs = 0\<rparr>\<rparr>]
   \<and> elevate_history (localStorage (performEndDay ev q d n a))
       = Holds (history (performEndDay ev q d n a))
   \<and> tasks (performEndDay ev q d n a) =
       map (\<lambda>t. t\<lparr>current := 0, sessions := Some [], updatedAt := n\<rparr>) (tasks a)
   \<and> list_all (\<lambda>t. current t = 0 \<and> sessions t = Some []) (tasks (performEndDay ev q d n a))
   \<and> userProfile (performEndDay ev q d n a) =
       (case userProfile a of
          None \<Rightarrow> None
        | Some p \<Rightarrow>
            Some (p\<lparr>xp := Some ((case xp p of None \<Rightarrow> 0 | Some x \<Rightarrow> x) +
              (if completionRate (ev (tasks a) (history a) (userProfile a)) \<ge> 80 then 100
               else if completionRate (ev (tasks a) (history a) (userProfile a)) \<ge> 50 then 50
               else 0))\<rparr>))"
proof -
  have "userProfile (performEndDay ev q d n a) =
       (case userProfile a of
          None \<Rightarrow> None
        | Some p \<Rightarrow>
            Some (p\<lparr>xp := Some ((case xp p of None \<Rightarrow> 0 | Some x \<Rightarrow> x) +
              (if completionRate (ev (tasks a) (history a) (userProfile a)) \<ge> 80 then 100
               else if completionRate (ev (tasks a) (history a) (userProfile a)) \<ge> 50 then 50
               else 0))\<rparr>))"
    by (cases "userProfile a")
      (simp_all add: performEndDay_def Let_def bonusXp_def add_xp_def xp_or0_def)
  moreover have "map (reset_task n) (tasks a)
      = map (\<lambda>t. t\<lparr>current := 0, sessions := Some [], updatedAt := n\<rparr>) (tasks a)"
    by (simp add: reset_task_def)
  ultimately show ?thesis
    using reset_all [of n "tasks a"]
    by (simp add: performEndDay_def Let_def endDay_log_def json_copy_def)
qed

text \<open>
  A good day: the profile has 40 points and the evaluator reports 85, so the points
  become 140; the log holds the task with its \<open>current = 25\<close> and its session, and the
  task is reset. And a day without progress: the task of \<open>ex_task\<close> has \<open>current = 0\<close>,
  and the history still grows from empty to one entry that holds the task.
\<close>

theorem performEndDay_archives_resets_awards_witness:
  "map_option xp (userProfile (ex_app_40 ex_session_task)) = Some (Some 40)
   \<and> history (ex_app_40 ex_session_task) = []
   \<and> map_option xp (userProfile (performEndDay good_day_evaluator [] ''2024-01-02''
                                     1704153600000 (ex_app_40 ex_session_task))) = Some (Some 140)
   \<and> history (performEndDay good_day_evaluator [] ''2024-01-02'' 1704153600000
                 (ex_app_40 ex_session_task))
       = [\<lparr>date = ''2024-01-02'', log_tasks = [ex_session_task],
            log_stats = \<lparr>completionRate = 85, totalFocusTimeMs = 0\<rparr>\<rparr>]
   \<and> tasks (performEndDay good_day_evaluator [] ''2024-01-02'' 1704153600000
                 (ex_app_40 ex_session_task))
       = [ex_session_task\<lparr>current := 0, sessions := Some [], updatedAt := 1704153600000\<rparr>]
   \<and> map current (tasks (ex_app ex_task)) = [0]
   \<and> map log_tasks (history (performEndDay sample_evaluator [] ''2024-01-02'' 1704153600000
                               (ex_app ex_task))) = [[ex_task]]
   \<and> map_option xp (userProfile (performEndDay sample_evaluator [] ''2024-01-02'' 1704153600000
                               (ex_app ex_task))) = Some (Some 0)"
proof -
  have s: "tasks (ex_app_40 ex_session_task) = [ex_session_task]"
    "history (ex_app_40 ex_session_task) = []"
    "userProfile (ex_app_40 ex_session_task) = Some ex_profile_40"
    "tasks (ex_app ex_task) = [ex_task]" "history (ex_app ex_task) = []"
    "userProfile (ex_app ex_task) = Some ex_profile"
    by (simp_all add: ex_app_40_def ex_app_def initial_app_def)
  have c: "current ex_task = 0"
    by (simp add: ex_task_def)
  show ?thesis
    using performEndDay_archives_resets_awards
            [of good_day_evaluator "[]" "''2024-01-02''" 1704153600000 "ex_app_40 ex_session_task"]
          performEndDay_archives_resets_awards
            [of sample_evaluator "[]" "''2024-01-02''" 1704153600000 "ex_app ex_task"]
    by (simp add: s c good_day_evaluator_def sample_evaluator_def ex_profile_40_def ex_profile_def)
qed

section \<open>The automatic rollover\<close>

text \<open>
  Claim C2. When the stored last active date exists (a non-empty text) and differs from
  today's date: if no task has \<open>current > 0\<close>, the rollover appends nothing to the
  history, in the state and in the store; in either case every task is reset
  (\<open>current = 0\<close>, no sessions) and the last active date becomes today's, in the state
  and in the store.
\<close>

theorem automatic_rollover_new_day:
  assumes "elevate_last_date (localStorage a) = Some sd" and "sd \<noteq> []" and "sd \<noteq> d"
  shows "(\<not> list_ex (\<lambda>t. current t > 0) (tasks a) \<longrightarrow>
            history (automatic_rollover ev d n a) = history a
            \<and> elevate_history (localStorage (automatic_rollover ev d n a))
                = elevate_history (localStorage a))
     \<and> tasks (automatic_rollover ev d n a) = map (reset_task n) (tasks a)
     \<and> list_all (\<lambda>t. current t = 0 \<and> sessions t = Some []) (tasks (automatic_rollover ev d n a))
     \<and> elevate_tasks (localStorage (automatic_rollover ev d n a))
         = Holds (tasks (automatic_rollover ev d n a))
     \<and> lastActiveDate (automatic_rollover ev d n a) = d
     \<and> elevate_last_date (localStorage (automatic_rollover ev d n a)) = Some d"
  using rollover_newday [OF assms, of ev n]
  by (simp add: hasProgress_def reset_all)

theorem automatic_rollover_new_day_witness:
  "elevate_last_date (localStorage (ex_app ex_task)) = Some ''2024-01-01''
   \<and> ''2024-01-01'' \<noteq> [] \<and> ''2024-01-01'' \<noteq> ''2024-01-02''
   \<and> \<not> list_ex (\<lambda>t. current t > 0) (tasks (ex_app ex_task))
   \<and> history (automatic_rollover sample_evaluator ''2024-01-02'' 1704153600000 (ex_app ex_task)) = []
   \<and> tasks (automatic_rollover sample_evaluator ''2024-01-02'' 1704153600000 (ex_app ex_task))
        = [ex_task\<lparr>updatedAt := 1704153600000\<rparr>]
   \<and> lastActiveDate (automatic_rollover sample_evaluator ''2024-01-02'' 1704153600000
                        (ex_app ex_task)) = ''2024-01-02''
   \<and> elevate_last_date (localStorage (automatic_rollover sample_evaluator ''2024-01-02''
                        1704153600000 (ex_app ex_task))) = Some ''2024-01-02''"
proof -
  have h: "elevate_last_date (localStorage (ex_app ex_task)) = Some ''2024-01-01''"
    "''2024-01-01'' \<noteq> []" "''2024-01-01'' \<noteq> ''2024-01-02''"
    by (simp_all add: ex_app_def initial_app_def ex_storage_def)
  have t: "tasks (ex_app ex_task) = [ex_task]" "history (ex_app ex_task) = []"
    by (simp_all add: ex_app_def initial_app_def)
  have r: "reset_task 1704153600000 ex_task = ex_task\<lparr>updatedAt := 1704153600000\<rparr>"
    "current ex_task = 0"
    by (simp_all add: reset_task_def ex_task_def)
  show ?thesis
    using automatic_rollover_new_day [OF h, of sample_evaluator 1704153600000] h
    by (simp add: t r)
qed

text \<open>
  The same through the whole start-up effect, from the store alone, when the stored
  state is readable.
\<close>

lemma startup_new_day:
  assumes "parses ls" and "elevate_last_date ls = Some sd" and "sd \<noteq> []" and "sd \<noteq> d"
  shows "\<exists>a. startup ev d n ls = Inr a
     \<and> (\<not> list_ex (\<lambda>t. current t > 0) (load_tasks (elevate_tasks ls)) \<longrightarrow>
          history a = stored_history ls
          \<and> elevate_history (localStorage a) = elevate_history ls)
     \<and> tasks a = map (reset_task n) (load_tasks (elevate_tasks ls))
     \<and> list_all (\<lambda>t. current t = 0 \<and> sessions t = Some []) (tasks a)
     \<and> elevate_tasks (localStorage a) = Holds (tasks a)
     \<and> lastActiveDate a = d
     \<and> elevate_last_date (localStorage a) = Some d"
proof -
  from load_state_parses [OF assms(1)] obtain a0 where a0: "load_state n ls = Inr a0"
    by blast
  note f = load_state_Inr [OF a0]
  have sd: "elevate_last_date (localStorage a0) = Some sd"
    using assms(2) f(5) by simp
  note r = rollover_newday [OF sd assms(3) assms(4), of ev n]
  have s: "startup ev d n ls = Inr (automatic_rollover ev d n a0)"
    by (simp add: startup_def a0)
  show ?thesis
    unfolding s using r f(2,3,5) by (simp add: hasProgress_def reset_all)
qed

text \<open>
  Claim C3. A second run of the rollover check on the same day is a no-op: on the state
  the first run left, it changes nothing at all; and after a restart, the start-up
  effect on the store the first run left returns the task list, the history and the
  last active date of the first run and leaves the store as it is.
\<close>

theorem automatic_rollover_idempotent:
  "automatic_rollover ev d n2 (automatic_rollover ev d n1 a) = automatic_rollover ev d n1 a
   \<and> (parses ls \<longrightarrow>
        (\<exists>a1 a2. startup ev d n1 ls = Inr a1
           \<and> startup ev d n2 (localStorage a1) = Inr a2
           \<and> tasks a2 = tasks a1 \<and> history a2 = history a1
           \<and> lastActiveDate a2 = lastActiveDate a1
           \<and> localStorage a2 = localStorage a1))"
proof (intro conjI impI)
  consider (first) "\<not> truthy (elevate_last_date (localStorage a))"
    | (same) "elevate_last_date (localStorage a) = Some d" "d \<noteq> []"
    | (new) sd where "elevate_last_date (localStorage a) = Some sd" "sd \<noteq> []" "sd \<noteq> d"
    by (cases "elevate_last_date (localStorage a)") (auto simp: truthy_def)
  then show "automatic_rollover ev d n2 (automatic_rollover ev d n1 a)
      = automatic_rollover ev d n1 a"
  proof cases
    case first
    then show ?thesis
      by (simp add: automatic_rollover_def Let_def truthy_def)
  next
    case same
    then show ?thesis
      by (simp add: rollover_sameday)
  next
    case new
    then show ?thesis
      by (simp add: automatic_rollover_def Let_def truthy_def)
  qed
next
  assume "parses ls"
  from load_state_parses [OF this] obtain a0 where "load_state n1 ls = Inr a0"
    by blast
  then have a1: "startup ev d n1 ls = Inr (automatic_rollover ev d n1 a0)"
    by (simp add: startup_def)
  note p = startup_post [OF a1]
  from load_state_parses [OF p(1)] obtain b0
    where b0: "load_state n2 (localStorage (automatic_rollover ev d n1 a0)) = Inr b0"
    by blast
  note f = load_state_Inr [OF b0]
  have "elevate_last_date (localStorage b0) = Some d"
    using f(5) p(2) by simp
  note r = rollover_at_today [OF this, of ev n2]
  have "startup ev d n2 (localStorage (automatic_rollover ev d n1 a0))
          = Inr (automatic_rollover ev d n2 b0)"
    by (simp add: startup_def b0)
  then show "\<exists>a1 a2. startup ev d n1 ls = Inr a1
           \<and> startup ev d n2 (localStorage a1) = Inr a2
           \<and> tasks a2 = tasks a1 \<and> history a2 = history a1
           \<and> lastActiveDate a2 = lastActiveDate a1
           \<and> localStorage a2 = localStorage a1"
    using a1 r f(2,3,5,6) p by (simp add: truthy_def)
qed

text \<open>
  With the sample store, whose date is the day before and whose task has progress: the
  first run archives and resets, the second finds nothing to do.
\<close>

theorem automatic_rollover_idempotent_witness:
  "parses ex_storage
   \<and> automatic_rollover sample_evaluator ''2024-01-02'' 1704157200000
        (automatic_rollover sample_evaluator ''2024-01-02'' 1704153600000 (ex_app ex_count_task))
      = automatic_rollover sample_evaluator ''2024-01-02'' 1704153600000 (ex_app ex_count_task)
   \<and> (\<exists>a1 a2. startup sample_evaluator ''2024-01-02'' 1704153600000 ex_storage = Inr a1
     \<and> startup sample_evaluator ''2024-01-02'' 1704157200000 (localStorage a1) = Inr a2
     \<and> tasks a2 = tasks a1 \<and> history a2 = history a1
     \<and> lastActiveDate a2 = lastActiveDate a1
     \<and> localStorage a2 = localStorage a1)"
proof -
  have h: "parses ex_storage"
    by (simp add: ex_storage_def parses_def)
  show ?thesis
    using automatic_rollover_idempotent
      [of sample_evaluator "''2024-01-02''" 1704157200000 1704153600000 "ex_app ex_count_task"
          ex_storage] h
    by simp
qed

text \<open>
  Claim C9. On a first run, when no last active date is stored, the rollover check sets
  the last active date to today's date, in the state and in the store, and changes
  nothing else: the task list and the history stay as they are, in the state and in the
  store; nothing is archived and nothing is reset.
\<close>

theorem first_run_initializes_date:
  assumes "elevate_last_date (localStorage a) = None"
  shows "automatic_rollover ev d n a =
           a\<lparr>lastActiveDate := d, localStorage := (localStorage a)\<lparr>elevate_last_date := Some d\<rparr>\<rparr>
     \<and> lastActiveDate (automatic_rollover ev d n a) = d
     \<and> elevate_last_date (localStorage (automatic_rollover ev d n a)) = Some d
     \<and> tasks (automatic_rollover ev d n a) = tasks a
     \<and> history (automatic_rollover ev d n a) = history a
     \<and> elevate_tasks (localStorage (automatic_rollover ev d n a)) = elevate_tasks (localStorage a)
     \<and> elevate_history (localStorage (automatic_rollover ev d n a))
         = elevate_history (localStorage a)"
proof -
  have "\<not> truthy (elevate_last_date (localStorage a))"
    using assms by (simp add: truthy_def)
  from rollover_firstrun [OF this, of ev d n] show ?thesis
    by simp
qed

theorem first_run_initializes_date_witness:
  "elevate_last_date (localStorage ((ex_app ex_count_task)\<lparr>localStorage := ex_storage_fresh\<rparr>)) = None
   \<and> lastActiveDate (automatic_rollover sample_evaluator ''2024-01-02'' 1704153600000
        ((ex_app ex_count_task)\<lparr>localStorage := ex_storage_fresh\<rparr>)) = ''2024-01-02''
   \<and> elevate_last_date (localStorage (automatic_rollover sample_evaluator ''2024-01-02''
        1704153600000 ((ex_app ex_count_task)\<lparr>localStorage := ex_storage_fresh\<rparr>)))
       = Some ''2024-01-02''
   \<and> tasks (automatic_rollover sample_evaluator ''2024-01-02'' 1704153600000
        ((ex_app ex_count_task)\<lparr>localStorage := ex_storage_fresh\<rparr>)) = [ex_count_task]
   \<and> history (automatic_rollover sample_evaluator ''2024-01-02'' 1704153600000
        ((ex_app ex_count_task)\<lparr>localStorage := ex_storage_fresh\<rparr>)) = []"
proof -
  have h: "elevate_last_date
      (localStorage ((ex_app ex_count_task)\<lparr>localStorage := ex_storage_fresh\<rparr>)) = None"
    by (simp add: ex_storage_fresh_def)
  have t: "tasks ((ex_app ex_count_task)\<lparr>localStorage := ex_storage_fresh\<rparr>) = [ex_count_task]"
    "history ((ex_app ex_count_task)\<lparr>localStorage := ex_storage_fresh\<rparr>) = []"
    by (simp_all add: ex_app_def initial_app_def)
  show ?thesis
    using first_run_initializes_date [OF h, of sample_evaluator "''2024-01-02''" 1704153600000] h t
    by simp
qed

text \<open>The same through the whole start-up effect, when the stored state is readable.\<close>

lemma startup_first_run:
  assumes "parses ls" and "elevate_last_date ls = None"
  shows "\<exists>a. startup ev d n ls = Inr a
     \<and> lastActiveDate a = d
     \<and> localStorage a = ls\<lparr>elevate_last_date := Some d\<rparr>
     \<and> tasks a = load_tasks (elevate_tasks ls)
     \<and> history a = stored_history ls"
proof -
  from load_state_parses [OF assms(1)] obtain a0 where a0: "load_state n ls = Inr a0"
    by blast
  note f = load_state_Inr [OF a0]
  have "\<not> truthy (elevate_last_date (localStorage a0))"
    using assms(2) f(5) by (simp add: truthy_def)
  from rollover_firstrun [OF this, of ev d n]
  have "startup ev d n ls = Inr (a0\<lparr>lastActiveDate := d,
          localStorage := (localStorage a0)\<lparr>elevate_last_date := Some d\<rparr>\<rparr>)"
    by (simp add: startup_def a0)
  then show ?thesis
    using f(2,3,5) by simp
qed




section \<open>Archive, then reset\<close>



section \<open>The persistence effect\<close>

text \<open>
  Claim C10. Every run of the persistence effect stores today's date as the last active
  date, whatever the state is and whatever date was stored before. A rollover check on
  that day therefore finds the dates equal and does nothing; the next start-up on that
  day, provided the store is readable, archives nothing and resets nothing, and returns
  the persisted tasks and history.
\<close>

theorem persist_overwrites_last_date:
  "elevate_last_date (localStorage (persist d a)) = Some d
   \<and> (d \<noteq> [] \<longrightarrow> automatic_rollover ev d n (persist d a) = persist d a)
   \<and> (d \<noteq> [] \<and> parses (localStorage (persist d a)) \<longrightarrow>
       (\<exists>a'. startup ev d n (localStorage (persist d a)) = Inr a'
          \<and> tasks a' = map migrate (tasks a) \<and> history a' = history a
          \<and> localStorage a' = localStorage (persist d a)))"
proof (intro conjI impI)
  show d: "elevate_last_date (localStorage (persist d a)) = Some d"
    by (simp add: persist_def)
  show "automatic_rollover ev d n (persist d a) = persist d a" if "d \<noteq> []"
    using d that by (rule rollover_sameday)
  assume h: "d \<noteq> [] \<and> parses (localStorage (persist d a))"
  then obtain b0 where b0: "load_state n (localStorage (persist d a)) = Inr b0"
    using load_state_parses by blast
  note f = load_state_Inr [OF b0]
  have "elevate_last_date (localStorage b0) = Some d"
    using f(5) d by simp
  from rollover_sameday [OF this, of ev n] h
  have "startup ev d n (localStorage (persist d a)) = Inr b0"
    by (simp add: startup_def b0)
  moreover have "tasks b0 = map migrate (tasks a)" "history b0 = history a"
    using f(2,3) by (simp_all add: persist_def load_tasks_def stored_history_def)
  ultimately show "\<exists>a'. startup ev d n (localStorage (persist d a)) = Inr a'
          \<and> tasks a' = map migrate (tasks a) \<and> history a' = history a
          \<and> localStorage a' = localStorage (persist d a)"
    using f(5) by simp
qed

text \<open>
  The stored date of \<open>ex_storage\<close> is the first of January and its task has progress; one
  persistence pass on the second makes the start-up of that day keep the progress.
\<close>

theorem persist_overwrites_last_date_witness:
  "elevate_last_date (localStorage (ex_app ex_count_task)) = Some ''2024-01-01''
   \<and> ''2024-01-02'' \<noteq> [] \<and> parses (localStorage (persist ''2024-01-02'' (ex_app ex_count_task)))
   \<and> elevate_last_date (localStorage (persist ''2024-01-02'' (ex_app ex_count_task)))
        = Some ''2024-01-02''
   \<and> automatic_rollover sample_evaluator ''2024-01-02'' 1704153600000
         (persist ''2024-01-02'' (ex_app ex_count_task)) = persist ''2024-01-02'' (ex_app ex_count_task)
   \<and> (\<exists>a'. startup sample_evaluator ''2024-01-02'' 1704153600000
               (localStorage (persist ''2024-01-02'' (ex_app ex_count_task))) = Inr a'
          \<and> map current (tasks a') = [5] \<and> history a' = [])"
proof -
  have h: "''2024-01-02'' \<noteq> [] \<and> parses (localStorage (persist ''2024-01-02'' (ex_app ex_count_task)))"
    by (simp add: persist_def parses_def ex_app_def)
  have o: "elevate_last_date (localStorage (ex_app ex_count_task)) = Some ''2024-01-01''"
    by (simp add: ex_app_def initial_app_def ex_storage_def)
  have t: "map current (map migrate (tasks (ex_app ex_count_task))) = [5]"
    "history (ex_app ex_count_task) = []"
    by (simp_all add: ex_app_def initial_app_def migrate_def ex_count_task_def)
  have "elevate_last_date (localStorage (persist ''2024-01-02'' (ex_app ex_count_task)))
        = Some ''2024-01-02''
     \<and> automatic_rollover sample_evaluator ''2024-01-02'' 1704153600000
         (persist ''2024-01-02'' (ex_app ex_count_task)) = persist ''2024-01-02'' (ex_app ex_count_task)
     \<and> (\<exists>a'. startup sample_evaluator ''2024-01-02'' 1704153600000
               (localStorage (persist ''2024-01-02'' (ex_app ex_count_task))) = Inr a'
          \<and> tasks a' = map migrate (tasks (ex_app ex_count_task))
          \<and> history a' = history (ex_app ex_count_task)
          \<and> localStorage a' = localStorage (persist ''2024-01-02'' (ex_app ex_count_task)))"
    using persist_overwrites_last_date
      [of "''2024-01-02''" "ex_app ex_count_task" sample_evaluator 1704153600000] h
    by blast
  then show ?thesis
    using h o t by auto
qed

section \<open>Focus sessions\<close>

lemma round_minutes_nearest:
  assumes "60000 * m \<le> ms + 30000" and "ms + 30000 < 60000 * m + 60000"
  shows "round_minutes ms = m"
proof -
  have "ms + 30000 = 60000 * m + (ms + 30000 - 60000 * m)"
    by simp
  moreover have "0 \<le> ms + 30000 - 60000 * m" "ms + 30000 - 60000 * m < 60000"
    using assms by simp_all
  ultimately have "(ms + 30000) div 60000 = m"
    by (rule int_div_pos_eq)
  then show ?thesis
    by (simp add: round_minutes_def)
qed

text \<open>
  Claim C5, as stated: a focus session on a count task awards no experience points. It
  does: thirty minutes on the count task \<open>ex_count_task\<close> raise the points from 0 to 60.
\<close>

theorem focus_session_count_task_counterexample:
  "task_type ex_count_task = Count
   \<and> activeTaskForFocus (ex_app ex_count_task) = Some ex_count_task
   \<and> map_option xp (userProfile (ex_app ex_count_task)) = Some (Some 0)
   \<and> map_option xp (userProfile (handleFocusSessionEnd 1704070800000 1800000
                                     (ex_app ex_count_task))) = Some (Some 60)"
  by (simp add: ex_count_task_def ex_app_def ex_profile_def handleFocusSessionEnd_def Let_def
      round_minutes_def add_xp_def xp_or0_def updateTask_def)

text \<open>
  Claim C5, amended. Let \<open>m\<close> be the length of the session rounded to whole minutes (the
  integer nearest to \<open>ms / 60000\<close>, a half rounding up), and let it be positive. Ending
  the session gives a profile with \<open>xp = x\<close> the value \<open>xp = x + 2 * m\<close> (a profile
  without the field counts as 0), for a task of either type. In the task list, the
  focused task is replaced by a copy with the session appended to its sessions, whose
  \<open>current\<close> has grown by \<open>m\<close> if the task is a duration task and is unchanged
  otherwise.
\<close>

theorem focus_session_xp_any_task_type:
  assumes "activeTaskForFocus a = Some t" and "userProfile a = Some p"
    and "60000 * m \<le> ms + 30000" and "ms + 30000 < 60000 * m + 60000" and "m > 0"
  shows "userProfile (handleFocusSessionEnd now ms a)
           = Some (p\<lparr>xp := Some ((case xp p of None \<Rightarrow> 0 | Some x \<Rightarrow> x) + 2 * m)\<rparr>)
     \<and> tasks (handleFocusSessionEnd now ms a) =
           map (\<lambda>u. if task_id u = task_id t
                     then t\<lparr>current := (if task_type t = Duration then current t + m
                                          else current t),
                            sessions := Some ((case sessions t of None \<Rightarrow> [] | Some ss \<Rightarrow> ss) @
                               [\<lparr>startTs = now - ms, endTs = now, durationMs = ms\<rparr>])\<rparr>
                     else u) (tasks a)"
proof -
  have r: "round_minutes ms = m"
    using assms(3,4) by (rule round_minutes_nearest)
  have i: "task_id (focus_update now ms t) = task_id t"
    by (simp add: focus_update_def)
  show ?thesis
    using assms(1,2,5)
    by (simp add: handleFocusSessionEnd_def Let_def r i updateTask_def add_xp_def xp_or0_def
        focus_update_def sessions_or_empty_def mult.commute)
qed

text \<open>
  A session of 1790 seconds rounds to 30 minutes. On the count task of \<open>ex_count_task\<close>
  and a profile with 40 points, the points become 100; the task keeps \<open>current = 5\<close> and
  gets its first session.
\<close>

theorem focus_session_xp_any_task_type_witness:
  "activeTaskForFocus (ex_app_40 ex_count_task) = Some ex_count_task
   \<and> userProfile (ex_app_40 ex_count_task) = Some ex_profile_40
   \<and> 60000 * 30 \<le> (1790000::int) + 30000 \<and> (1790000::int) + 30000 < 60000 * 30 + 60000
   \<and> (30::int) > 0
   \<and> task_type ex_count_task = Count
   \<and> userProfile (handleFocusSessionEnd 1704070800000 1790000 (ex_app_40 ex_count_task))
       = Some \<lparr>onboarded = True, xp = Some 100\<rparr>
   \<and> tasks (handleFocusSessionEnd 1704070800000 1790000 (ex_app_40 ex_count_task))
       = [ex_count_task\<lparr>sessions := Some [\<lparr>startTs = 1704069010000, endTs = 1704070800000,
                                               durationMs = 1790000\<rparr>]\<rparr>]
   \<and> map current (tasks (handleFocusSessionEnd 1704070800000 1790000 (ex_app_40 ex_count_task)))
       = [5]"
proof -
  have h: "activeTaskForFocus (ex_app_40 ex_count_task) = Some ex_count_task"
    "userProfile (ex_app_40 ex_count_task) = Some ex_profile_40"
    "60000 * 30 \<le> (1790000::int) + 30000" "(1790000::int) + 30000 < 60000 * 30 + 60000"
    "(30::int) > 0"
    by (simp_all add: ex_app_40_def ex_app_def)
  have f: "tasks (ex_app_40 ex_count_task) = [ex_count_task]"
    "task_type ex_count_task = Count" "sessions ex_count_task = Some []"
    "current ex_count_task = 5"
    "ex_count_task\<lparr>current := 5, sessions := s\<rparr> = ex_count_task\<lparr>sessions := s\<rparr>" for s
    by (simp_all add: ex_app_40_def ex_app_def ex_count_task_def)
  have "userProfile (handleFocusSessionEnd 1704070800000 1790000 (ex_app_40 ex_count_task))
          = Some \<lparr>onboarded = True, xp = Some 100\<rparr>
     \<and> tasks (handleFocusSessionEnd 1704070800000 1790000 (ex_app_40 ex_count_task))
          = [ex_count_task\<lparr>sessions := Some [\<lparr>startTs = 1704069010000, endTs = 1704070800000,
                                                  durationMs = 1790000\<rparr>]\<rparr>]"
    using focus_session_xp_any_task_type [OF h, of 1704070800000]
    by (simp add: f ex_profile_40_def)
  then show ?thesis
    using h f(2,4) by simp
qed

text \<open>
  Claim C8. Let \<open>m\<close> be the length of the session rounded to whole minutes (the integer
  nearest to \<open>ms / 60000\<close>, a half rounding up). Ending a focus session on a duration
  task replaces the task in the list by a copy whose sessions are the former ones
  followed by the one new record, and whose \<open>current\<close> is the former value plus \<open>m\<close>.
  When \<open>m\<close> is positive, a profile with \<open>xp = x\<close> gets \<open>xp = x + 2 * m\<close> (a profile
  without the field counts as 0). When \<open>m\<close> is not positive, no points are awarded for
  minutes: the profile stays as it is, unless the update takes the listed task from
  below its target to its target, which awards the 50 points of a completion.
\<close>

theorem focus_session_duration_task:
  assumes "activeTaskForFocus a = Some t" and "task_type t = Duration"
    and "60000 * m \<le> ms + 30000" and "ms + 30000 < 60000 * m + 60000"
  shows "tasks (handleFocusSessionEnd now ms a) =
           map (\<lambda>u. if task_id u = task_id t
                     then t\<lparr>current := current t + m,
                            sessions := Some ((case sessions t of None \<Rightarrow> [] | Some ss \<Rightarrow> ss) @
                               [\<lparr>startTs = now - ms, endTs = now, durationMs = ms\<rparr>])\<rparr>
                     else u) (tasks a)
     \<and> userProfile (handleFocusSessionEnd now ms a) =
         (if m > 0
          then (case userProfile a of
                  None \<Rightarrow> None
                | Some p \<Rightarrow>
                    Some (p\<lparr>xp := Some ((case xp p of None \<Rightarrow> 0 | Some x \<Rightarrow> x) + 2 * m)\<rparr>))
          else (case find (\<lambda>u. task_id u = task_id t) (tasks a) of
                  None \<Rightarrow> userProfile a
                | Some old \<Rightarrow>
                    if current old < target old \<and> target t \<le> current t + m
                    then (case userProfile a of
                            None \<Rightarrow> None
                          | Some p \<Rightarrow>
                              Some (p\<lparr>xp := Some ((case xp p of None \<Rightarrow> 0 | Some x \<Rightarrow> x) + 50)\<rparr>))
                    else userProfile a))"
proof -
  have r: "round_minutes ms = m"
    using assms(3,4) by (rule round_minutes_nearest)
  have i: "task_id (focus_update now ms t) = task_id t"
    "target (focus_update now ms t) = target t"
    "current (focus_update now ms t) = current t + m"
    using assms(2) by (simp_all add: focus_update_def r)
  have u: "userProfile (handleFocusSessionEnd now ms a) =
      (if m > 0 then map_option (add_xp (2 * m)) (userProfile a)
       else userProfile (updateTask (focus_update now ms t) a))"
    using assms(1)
    by (cases "userProfile a")
      (simp_all add: handleFocusSessionEnd_def Let_def r mult.commute updateTask_def)
  have p: "map_option (add_xp k) (userProfile a) =
      (case userProfile a of
         None \<Rightarrow> None
       | Some p \<Rightarrow> Some (p\<lparr>xp := Some ((case xp p of None \<Rightarrow> 0 | Some x \<Rightarrow> x) + k)\<rparr>))" for k
    by (cases "userProfile a") (simp_all add: add_xp_def xp_or0_def)
  have c: "userProfile (updateTask (focus_update now ms t) a) =
      (case find (\<lambda>u. task_id u = task_id t) (tasks a) of
         None \<Rightarrow> userProfile a
       | Some old \<Rightarrow>
           if current old < target old \<and> target t \<le> current t + m
           then map_option (add_xp 50) (userProfile a) else userProfile a)"
    by (simp add: updateTask_def completedNow_def i split: option.splits)
  have "tasks (handleFocusSessionEnd now ms a) =
           map (\<lambda>u. if task_id u = task_id t
                     then t\<lparr>current := current t + m,
                            sessions := Some ((case sessions t of None \<Rightarrow> [] | Some ss \<Rightarrow> ss) @
                               [\<lparr>startTs = now - ms, endTs = now, durationMs = ms\<rparr>])\<rparr>
                     else u) (tasks a)"
    using assms(1,2)
    by (simp add: handleFocusSessionEnd_def Let_def updateTask_def i(1) r
        focus_update_def sessions_or_empty_def split: option.splits)
  then show ?thesis
    unfolding u c p by simp
qed

text \<open>
  A session of 1790 seconds rounds to 30 minutes. The duration task of
  \<open>ex_session_task\<close> has \<open>current = 25\<close> and one session, the profile has 40 points:
  afterwards \<open>current\<close> is 55, the first session is followed by the new one, and the
  points are 100. And the scenario of exactly thirty minutes on a fresh task: \<open>current\<close>
  goes from 0 to 30 and the points from 0 to 60.
\<close>

theorem focus_session_duration_task_witness:
  "activeTaskForFocus (ex_app_40 ex_session_task) = Some ex_session_task
   \<and> task_type ex_session_task = Duration
   \<and> 60000 * 30 \<le> (1790000::int) + 30000 \<and> (1790000::int) + 30000 < 60000 * 30 + 60000
   \<and> map current (tasks (ex_app_40 ex_session_task)) = [25]
   \<and> map_option xp (userProfile (ex_app_40 ex_session_task)) = Some (Some 40)
   \<and> map current (tasks (handleFocusSessionEnd 1704070800000 1790000
                             (ex_app_40 ex_session_task))) = [55]
   \<and> map sessions (tasks (handleFocusSessionEnd 1704070800000 1790000
                             (ex_app_40 ex_session_task)))
       = [Some [\<lparr>startTs = 1704067200000, endTs = 1704068700000, durationMs = 1500000\<rparr>,
                \<lparr>startTs = 1704069010000, endTs = 1704070800000, durationMs = 1790000\<rparr>]]
   \<and> map_option xp (userProfile (handleFocusSessionEnd 1704070800000 1790000
                                     (ex_app_40 ex_session_task))) = Some (Some 100)
   \<and> map current (tasks (handleFocusSessionEnd 1704070800000 1800000 (ex_app ex_task))) = [30]
   \<and> map_option xp (userProfile (handleFocusSessionEnd 1704070800000 1800000 (ex_app ex_task)))
       = Some (Some 60)"
proof -
  have h: "activeTaskForFocus (ex_app_40 ex_session_task) = Some ex_session_task"
    "task_type ex_session_task = Duration"
    "60000 * 30 \<le> (1790000::int) + 30000" "(1790000::int) + 30000 < 60000 * 30 + 60000"
    by (simp_all add: ex_app_40_def ex_app_def ex_session_task_def ex_task_def)
  have g: "activeTaskForFocus (ex_app ex_task) = Some ex_task" "task_type ex_task = Duration"
    "60000 * 30 \<le> (1800000::int) + 30000" "(1800000::int) + 30000 < 60000 * 30 + 60000"
    by (simp_all add: ex_app_def ex_task_def)
  have t: "tasks (ex_app_40 ex_session_task) = [ex_session_task]"
    "userProfile (ex_app_40 ex_session_task) = Some ex_profile_40"
    "tasks (ex_app ex_task) = [ex_task]" "userProfile (ex_app ex_task) = Some ex_profile"
    by (simp_all add: ex_app_40_def ex_app_def)
  have f: "current ex_session_task = 25"
    "sessions ex_session_task
       = Some [\<lparr>startTs = 1704067200000, endTs = 1704068700000, durationMs = 1500000\<rparr>]"
    "current ex_task = 0" "sessions ex_task = Some []"
    by (simp_all add: ex_session_task_def ex_task_def)
  have x: "xp ex_profile_40 = Some 40" "xp ex_profile = Some 0"
    by (simp_all add: ex_profile_40_def ex_profile_def)
  have a: "map current (tasks (handleFocusSessionEnd 1704070800000 1790000
                             (ex_app_40 ex_session_task))) = [55]
     \<and> map sessions (tasks (handleFocusSessionEnd 1704070800000 1790000
                             (ex_app_40 ex_session_task)))
       = [Some [\<lparr>startTs = 1704067200000, endTs = 1704068700000, durationMs = 1500000\<rparr>,
                \<lparr>startTs = 1704069010000, endTs = 1704070800000, durationMs = 1790000\<rparr>]]
     \<and> map_option xp (userProfile (handleFocusSessionEnd 1704070800000 1790000
                                     (ex_app_40 ex_session_task))) = Some (Some 100)"
    using focus_session_duration_task [OF h, of 1704070800000]
    by (simp add: t f x)
  have b: "map current (tasks (handleFocusSessionEnd 1704070800000 1800000 (ex_app ex_task))) = [30]
     \<and> map_option xp (userProfile (handleFocusSessionEnd 1704070800000 1800000 (ex_app ex_task)))
       = Some (Some 60)"
    using focus_session_duration_task [OF g, of 1704070800000]
    by (simp add: t f x)
  show ?thesis
    using a b h t(1,2) f(1) x(1) by simp
qed

section \<open>Properties of the object store\<close>

subsection \<open>lookup\<close>

lemma lookup_Some_less: "lookup h a = Some c \<Longrightarrow> a < length h"
  by (simp add: lookup_def split: if_splits)

lemma lookup_append: "lookup h a = Some c \<Longrightarrow> lookup (h @ e) a = Some c"
  by (auto simp: lookup_def nth_append split: if_splits)

lemma lookup_update: "x \<noteq> a \<Longrightarrow> lookup (h[x := c]) a = lookup h a"
  by (simp add: lookup_def)

lemma those_Some_map: "those xs = Some ys \<Longrightarrow> xs = map Some ys"
  by (induction xs arbitrary: ys) (auto split: option.splits)

lemma those_map_transfer:
  assumes "those (map f as) = Some vs" and "\<And>a v. a \<in> set as \<Longrightarrow> f a = Some v \<Longrightarrow> g a = Some v"
  shows "those (map g as) = Some vs"
  using assms
proof (induction as arbitrary: vs)
  case Nil
  then show ?case by simp
next
  case (Cons a as)
  then show ?case
    by (auto split: option.splits)
qed

subsection \<open>Reading after the store has grown\<close>

lemma read_session_append: "read_session h a = Some s \<Longrightarrow> read_session (h @ e) a = Some s"
  by (auto simp: read_session_def lookup_append split: option.splits cell.splits)

lemma read_sessions_append:
  assumes "read_sessions h a = Some ss"
  shows "read_sessions (h @ e) a = Some ss"
proof -
  from assms obtain as where l: "lookup h a = Some (SessionsCell as)"
    and t: "those (map (read_session h) as) = Some ss"
    by (auto simp: read_sessions_def split: option.splits cell.splits)
  from t have "those (map (read_session (h @ e)) as) = Some ss"
    by (rule those_map_transfer) (rule read_session_append)
  then show ?thesis
    by (simp add: read_sessions_def lookup_append [OF l])
qed

lemma read_tags_append: "read_tags h a = Some g \<Longrightarrow> read_tags (h @ e) a = Some g"
  by (auto simp: read_tags_def lookup_append split: option.splits cell.splits)

lemma read_sessions_field_append:
  "read_sessions_field h r = Some f \<Longrightarrow> read_sessions_field (h @ e) r = Some f"
  by (auto simp: read_sessions_field_def read_sessions_append split: option.splits)

lemma read_task_append:
  assumes "read_task h a = Some t"
  shows "read_task (h @ e) a = Some t"
proof -
  from assms obtain obj ss g where l: "lookup h a = Some (TaskCell obj)"
    and s: "read_sessions_field h (sessions obj) = Some ss"
    and g: "read_tags h (tags obj) = Some g" and t: "t = with_arrays obj ss g"
    by (auto simp: read_task_def split: option.splits cell.splits)
  show ?thesis
    by (simp add: read_task_def lookup_append [OF l] read_sessions_field_append [OF s]
        read_tags_append [OF g] t)
qed

lemma read_tasks_append:
  assumes "read_tasks h a = Some ts"
  shows "read_tasks (h @ e) a = Some ts"
proof -
  from assms obtain as where l: "lookup h a = Some (TasksCell as)"
    and t: "those (map (read_task h) as) = Some ts"
    by (auto simp: read_tasks_def split: option.splits cell.splits)
  from t have "those (map (read_task (h @ e)) as) = Some ts"
    by (rule those_map_transfer) (rule read_task_append)
  then show ?thesis
    by (simp add: read_tasks_def lookup_append [OF l])
qed

subsection \<open>Footprints\<close>

lemma fp_sessions_bound:
  assumes "read_sessions h a = Some ss"
  shows "fp_sessions h a \<subseteq> {..<length h}"
proof -
  from assms obtain as where l: "lookup h a = Some (SessionsCell as)"
    and t: "those (map (read_session h) as) = Some ss"
    by (auto simp: read_sessions_def split: option.splits cell.splits)
  have "x < length h" if "x \<in> set as" for x
  proof -
    from those_Some_map [OF t] that have "read_session h x \<noteq> None"
      by (metis image_eqI list.set_map option.distinct(1) imageE)
    then show ?thesis
      by (auto simp: read_session_def dest: lookup_Some_less split: option.splits)
  qed
  then show ?thesis
    using lookup_Some_less [OF l] by (auto simp: fp_sessions_def l)
qed

lemma fp_sessions_append:
  assumes "read_sessions h a = Some ss"
  shows "fp_sessions (h @ e) a = fp_sessions h a"
proof -
  from assms obtain as where l: "lookup h a = Some (SessionsCell as)"
    by (auto simp: read_sessions_def split: option.splits cell.splits)
  show ?thesis
    by (simp add: fp_sessions_def l lookup_append [OF l])
qed

lemma fp_task_bound:
  assumes "read_task h a = Some t"
  shows "fp_task h a \<subseteq> {..<length h}"
proof -
  from assms obtain obj ss g where l: "lookup h a = Some (TaskCell obj)"
    and s: "read_sessions_field h (sessions obj) = Some ss"
    and g: "read_tags h (tags obj) = Some g"
    by (auto simp: read_task_def split: option.splits cell.splits)
  have "tags obj < length h"
    using g by (auto simp: read_tags_def dest: lookup_Some_less split: option.splits)
  moreover have "fp_sessions h sa \<subseteq> {..<length h}" if "sessions obj = Some sa" for sa
    using s that by (auto simp: read_sessions_field_def dest: fp_sessions_bound)
  ultimately show ?thesis
    using lookup_Some_less [OF l] by (auto simp: fp_task_def l split: option.splits)
qed

lemma fp_task_append:
  assumes "read_task h a = Some t"
  shows "fp_task (h @ e) a = fp_task h a"
proof -
  from assms obtain obj ss g where l: "lookup h a = Some (TaskCell obj)"
    and s: "read_sessions_field h (sessions obj) = Some ss"
    by (auto simp: read_task_def split: option.splits cell.splits)
  have "fp_sessions (h @ e) sa = fp_sessions h sa" if "sessions obj = Some sa" for sa
    using s that by (auto simp: read_sessions_field_def dest: fp_sessions_append)
  then show ?thesis
    by (simp add: fp_task_def l lookup_append [OF l] split: option.splits)
qed

lemma those_map_defined:
  assumes "those (map f as) = Some vs" and "x \<in> set as"
  shows "\<exists>v. f x = Some v"
proof -
  from those_Some_map [OF assms(1)] have "map f as = map Some vs" .
  then have "f x \<in> set (map Some vs)"
    using assms(2) by (metis image_eqI list.set_map)
  then show ?thesis by auto
qed

lemma fp_tasks_bound:
  assumes "read_tasks h a = Some ts"
  shows "fp_tasks h a \<subseteq> {..<length h}"
proof -
  from assms obtain as where l: "lookup h a = Some (TasksCell as)"
    and t: "those (map (read_task h) as) = Some ts"
    by (auto simp: read_tasks_def split: option.splits cell.splits)
  have "fp_task h x \<subseteq> {..<length h}" if "x \<in> set as" for x
    using those_map_defined [OF t that] fp_task_bound by blast
  then show ?thesis
    using lookup_Some_less [OF l] by (auto simp: fp_tasks_def l)
qed

lemma fp_tasks_append:
  assumes "read_tasks h a = Some ts"
  shows "fp_tasks (h @ e) a = fp_tasks h a"
proof -
  from assms obtain as where l: "lookup h a = Some (TasksCell as)"
    and t: "those (map (read_task h) as) = Some ts"
    by (auto simp: read_tasks_def split: option.splits cell.splits)
  have "fp_task (h @ e) x = fp_task h x" if "x \<in> set as" for x
    using those_map_defined [OF t that] fp_task_append by blast
  then have "map (fp_task (h @ e)) as = map (fp_task h) as"
    by simp
  then show ?thesis
    by (simp add: fp_tasks_def l lookup_append [OF l])
qed

subsection \<open>Writing outside a footprint\<close>

lemma read_session_update: "x \<noteq> a \<Longrightarrow> read_session (h[x := c]) a = read_session h a"
  by (simp add: read_session_def lookup_update)

lemma read_sessions_update:
  assumes "x \<notin> fp_sessions h a"
  shows "read_sessions (h[x := c]) a = read_sessions h a"
proof (cases "lookup h a")
  case None
  then show ?thesis
    using assms by (simp add: read_sessions_def fp_sessions_def lookup_update)
next
  case (Some d)
  have xa: "x \<noteq> a" using assms by (auto simp: fp_sessions_def)
  show ?thesis
  proof (cases d)
    case (SessionsCell as)
    with Some assms have "x \<notin> set as"
      by (simp add: fp_sessions_def)
    then have "read_session (h[x := c]) y = read_session h y" if "y \<in> set as" for y
      using that by (intro read_session_update) auto
    then have "map (read_session (h[x := c])) as = map (read_session h) as"
      by (intro map_cong) simp_all
    then have "those (map (read_session (h[x := c])) as) = those (map (read_session h) as)"
      by (rule arg_cong)
    then show ?thesis
      using Some SessionsCell xa by (simp add: read_sessions_def lookup_update)
  qed (use Some xa in \<open>simp_all add: read_sessions_def lookup_update\<close>)
qed

lemma read_tags_update: "x \<noteq> a \<Longrightarrow> read_tags (h[x := c]) a = read_tags h a"
  by (simp add: read_tags_def lookup_update)

lemma read_task_update:
  assumes "x \<notin> fp_task h a"
  shows "read_task (h[x := c]) a = read_task h a"
proof (cases "lookup h a")
  case None
  then show ?thesis
    using assms by (simp add: read_task_def fp_task_def lookup_update)
next
  case (Some d)
  have xa: "x \<noteq> a" using assms by (auto simp: fp_task_def)
  show ?thesis
  proof (cases d)
    case (TaskCell obj)
    with Some assms have g: "x \<noteq> tags obj"
      by (simp add: fp_task_def)
    have "read_sessions_field (h[x := c]) (sessions obj) = read_sessions_field h (sessions obj)"
      using Some TaskCell assms
      by (auto simp: read_sessions_field_def fp_task_def read_sessions_update split: option.splits)
    moreover have "read_tags (h[x := c]) (tags obj) = read_tags h (tags obj)"
      using g by (rule read_tags_update)
    ultimately show ?thesis
      using Some TaskCell xa by (simp add: read_task_def lookup_update split: option.splits)
  qed (use Some xa in \<open>simp_all add: read_task_def lookup_update\<close>)
qed

lemma read_tasks_update:
  assumes "x \<notin> fp_tasks h a"
  shows "read_tasks (h[x := c]) a = read_tasks h a"
proof (cases "lookup h a")
  case None
  then show ?thesis
    using assms by (simp add: read_tasks_def fp_tasks_def lookup_update)
next
  case (Some d)
  have xa: "x \<noteq> a" using assms by (auto simp: fp_tasks_def)
  show ?thesis
  proof (cases d)
    case (TasksCell as)
    with Some assms have "x \<notin> fp_task h y" if "y \<in> set as" for y
      using that by (auto simp: fp_tasks_def)
    then have "map (read_task (h[x := c])) as = map (read_task h) as"
      by (intro map_cong) (simp_all add: read_task_update)
    then have "those (map (read_task (h[x := c])) as) = those (map (read_task h) as)"
      by (rule arg_cong)
    then show ?thesis
      using Some TasksCell xa by (simp add: read_tasks_def lookup_update)
  qed (use Some xa in \<open>simp_all add: read_tasks_def lookup_update\<close>)
qed

subsection \<open>Building fresh objects\<close>

lemma with_arrays_back: "with_arrays (with_arrays t sa ga) (sessions t) (tags t) = (t :: task)"
  by (cases t) (simp add: with_arrays_def)

lemma with_arrays_fields:
  "sessions (with_arrays t s g) = s" "tags (with_arrays t s g) = g"
  by (simp_all add: with_arrays_def)

lemma build_list_correct:
  assumes step: "\<And>x h a h'. f x h = (a, h') \<Longrightarrow>
      (\<exists>e. h' = h @ e) \<and> rd h' a = Some x \<and> fp h' a \<subseteq> {length h..<length h'}"
    and rd_app: "\<And>h a x e. rd h a = Some x \<Longrightarrow> rd (h @ e) a = Some x"
    and fp_app: "\<And>h a x e. rd h a = Some x \<Longrightarrow> fp (h @ e) a = fp h a"
    and run: "build_list f xs h = (as, h')"
  shows "(\<exists>e. h' = h @ e) \<and> those (map (rd h') as) = Some xs
    \<and> (\<forall>a\<in>set as. fp h' a \<subseteq> {length h..<length h'})"
  using run
proof (induction xs arbitrary: h as h')
  case Nil
  then show ?case by simp
next
  case (Cons x xs)
  from Cons.prems obtain a h1 as' where fx: "f x h = (a, h1)"
    and rest: "build_list f xs h1 = (as', h')" and as: "as = a # as'"
    by (auto split: prod.splits)
  from step [OF fx] obtain e1 where h1: "h1 = h @ e1" and ra: "rd h1 a = Some x"
    and fa: "fp h1 a \<subseteq> {length h..<length h1}"
    by blast
  from Cons.IH [OF rest] obtain e2 where h': "h' = h1 @ e2"
    and rs: "those (map (rd h') as') = Some xs"
    and fs: "\<forall>b\<in>set as'. fp h' b \<subseteq> {length h1..<length h'}"
    by blast
  have ra': "rd h' a = Some x"
    unfolding h' using ra by (rule rd_app)
  have fa': "fp h' a \<subseteq> {length h..<length h'}"
    using fa fp_app [OF ra, of e2] by (auto simp: h')
  have "{length h1..<length h'} \<subseteq> {length h..<length h'}"
    by (auto simp: h1)
  with fs have "\<forall>b\<in>set as'. fp h' b \<subseteq> {length h..<length h'}"
    by blast
  then show ?case
    using ra' rs fa' by (auto simp: as h' h1)
qed

lemma build_session_correct:
  assumes "build_session s h = (a, h')"
  shows "(\<exists>e. h' = h @ e) \<and> read_session h' a = Some s \<and> {a} \<subseteq> {length h..<length h'}"
  using assms by (auto simp: build_session_def alloc_def read_session_def lookup_def)

lemma build_sessions_correct:
  assumes "build_sessions ss h = (a, h')"
  shows "(\<exists>e. h' = h @ e) \<and> read_sessions h' a = Some ss
    \<and> fp_sessions h' a \<subseteq> {length h..<length h'}"
proof -
  from assms obtain as h1 where bl: "build_list build_session ss h = (as, h1)"
    and a: "a = length h1" and h': "h' = h1 @ [SessionsCell as]"
    by (auto simp: build_sessions_def alloc_def split: prod.splits)
  have "(\<exists>e. h1 = h @ e) \<and> those (map (read_session h1) as) = Some ss
    \<and> (\<forall>a\<in>set as. {a} \<subseteq> {length h..<length h1})"
  proof (rule build_list_correct [where fp = "\<lambda>h a. {a}", OF _ _ _ bl])
    show "\<And>x h a h'. build_session x h = (a, h') \<Longrightarrow>
        (\<exists>e. h' = h @ e) \<and> read_session h' a = Some x \<and> {a} \<subseteq> {length h..<length h'}"
      by (rule build_session_correct)
    show "\<And>h a x e. read_session h a = Some x \<Longrightarrow> read_session (h @ e) a = Some x"
      by (rule read_session_append)
  qed simp
  then obtain e1 where h1: "h1 = h @ e1" and rs: "those (map (read_session h1) as) = Some ss"
    and bs: "\<forall>a\<in>set as. {a} \<subseteq> {length h..<length h1}"
    by blast
  have l: "lookup h' a = Some (SessionsCell as)"
    by (simp add: a h' lookup_def)
  from rs have "those (map (read_session h') as) = Some ss"
    unfolding h' by (rule those_map_transfer) (rule read_session_append)
  then have "read_sessions h' a = Some ss"
    by (simp add: read_sessions_def l)
  moreover have "fp_sessions h' a = insert a (set as)"
    by (simp add: fp_sessions_def l)
  moreover have "length h \<le> a" "a < length h'" "length h1 \<le> length h'"
    by (simp_all add: a h' h1)
  ultimately have "read_sessions h' a = Some ss \<and> fp_sessions h' a \<subseteq> {length h..<length h'}"
    using bs by auto
  then show ?thesis
    by (auto simp: h' h1)
qed

lemma build_sessions_field_correct:
  assumes "build_sessions_field f h = (r, h')"
  shows "(\<exists>e. h' = h @ e) \<and> read_sessions_field h' r = Some f
    \<and> (case r of None \<Rightarrow> {} | Some sa \<Rightarrow> fp_sessions h' sa) \<subseteq> {length h..<length h'}"
proof (cases f)
  case None
  then show ?thesis
    using assms by (simp add: build_sessions_field_def read_sessions_field_def)
next
  case (Some ss)
  with assms obtain a where b: "build_sessions ss h = (a, h')" and r: "r = Some a"
    by (auto simp: build_sessions_field_def split: prod.splits)
  from build_sessions_correct [OF b] show ?thesis
    by (simp add: r Some read_sessions_field_def)
qed

lemma build_task_correct:
  assumes "build_task t h = (a, h')"
  shows "(\<exists>e. h' = h @ e) \<and> read_task h' a = Some t \<and> fp_task h' a \<subseteq> {length h..<length h'}"
proof -
  from assms obtain sa h1 where bf: "build_sessions_field (sessions t) h = (sa, h1)"
    and a: "a = Suc (length h1)"
    and h': "h' = h1 @ [TagsCell (tags t), TaskCell (with_arrays t sa (length h1))]"
    by (auto simp: build_task_def alloc_def split: prod.splits)
  from build_sessions_field_correct [OF bf] obtain e1 where h1: "h1 = h @ e1"
    and rf: "read_sessions_field h1 sa = Some (sessions t)"
    and ff: "(case sa of None \<Rightarrow> {} | Some x \<Rightarrow> fp_sessions h1 x) \<subseteq> {length h..<length h1}"
    by blast
  have l: "lookup h' a = Some (TaskCell (with_arrays t sa (length h1)))"
    by (simp add: a h' lookup_def nth_append)
  have g: "read_tags h' (length h1) = Some (tags t)"
    by (simp add: h' read_tags_def lookup_def nth_append)
  have rf': "read_sessions_field h' sa = Some (sessions t)"
    unfolding h' using rf by (rule read_sessions_field_append)
  have rt: "read_task h' a = Some t"
    by (simp add: read_task_def l with_arrays_fields rf' g with_arrays_back)
  have "fp_sessions h' x = fp_sessions h1 x" if "sa = Some x" for x
    using rf that unfolding h'
    by (auto simp: read_sessions_field_def dest: fp_sessions_append)
  then have "fp_task h' a =
      insert a (insert (length h1) (case sa of None \<Rightarrow> {} | Some x \<Rightarrow> fp_sessions h1 x))"
    by (cases sa) (simp_all add: fp_task_def l with_arrays_fields)
  moreover have "length h \<le> length h1" "length h1 < length h'" "a < length h'" "length h \<le> a"
    by (simp_all add: h1 h' a)
  ultimately have "fp_task h' a \<subseteq> {length h..<length h'}"
    using ff by (auto split: option.splits)
  with rt show ?thesis
    by (auto simp: h' h1)
qed

lemma build_tasks_correct:
  assumes "build_tasks ts h = (a, h')"
  shows "(\<exists>e. h' = h @ e) \<and> read_tasks h' a = Some ts \<and> fp_tasks h' a \<subseteq> {length h..<length h'}"
proof -
  from assms obtain as h1 where bl: "build_list build_task ts h = (as, h1)"
    and a: "a = length h1" and h': "h' = h1 @ [TasksCell as]"
    by (auto simp: build_tasks_def alloc_def split: prod.splits)
  have "(\<exists>e. h1 = h @ e) \<and> those (map (read_task h1) as) = Some ts
    \<and> (\<forall>a\<in>set as. fp_task h1 a \<subseteq> {length h..<length h1})"
  proof (rule build_list_correct [OF _ _ _ bl])
    show "\<And>x h a h'. build_task x h = (a, h') \<Longrightarrow>
        (\<exists>e. h' = h @ e) \<and> read_task h' a = Some x \<and> fp_task h' a \<subseteq> {length h..<length h'}"
      by (rule build_task_correct)
    show "\<And>h a x e. read_task h a = Some x \<Longrightarrow> read_task (h @ e) a = Some x"
      by (rule read_task_append)
    show "\<And>h a x e. read_task h a = Some x \<Longrightarrow> fp_task (h @ e) a = fp_task h a"
      by (rule fp_task_append)
  qed
  then obtain e1 where h1: "h1 = h @ e1" and rs: "those (map (read_task h1) as) = Some ts"
    and bs: "\<forall>a\<in>set as. fp_task h1 a \<subseteq> {length h..<length h1}"
    by blast
  have l: "lookup h' a = Some (TasksCell as)"
    by (simp add: a h' lookup_def)
  from rs have "those (map (read_task h') as) = Some ts"
    unfolding h' by (rule those_map_transfer) (rule read_task_append)
  then have "read_tasks h' a = Some ts"
    by (simp add: read_tasks_def l)
  moreover have "fp_task h' x = fp_task h1 x" if "x \<in> set as" for x
    using those_map_defined [OF rs that] unfolding h' by (auto dest: fp_task_append)
  then have "\<forall>x\<in>set as. fp_task h' x \<subseteq> {length h..<length h1}"
    using bs by simp
  moreover have "fp_tasks h' a = insert a (\<Union> (set (map (fp_task h') as)))"
    by (simp add: fp_tasks_def l)
  moreover have "length h \<le> a" "a < length h'" "length h1 \<le> length h'"
    by (simp_all add: a h' h1)
  ultimately have "read_tasks h' a = Some ts \<and> fp_tasks h' a \<subseteq> {length h..<length h'}"
    by fastforce
  then show ?thesis
    by (auto simp: h' h1)
qed

subsection \<open>The reset allocates and never writes\<close>

lemma reset_obj_correct:
  assumes "read_task h a = Some t"
  shows "\<exists>b h'. reset_obj now a h = Some (b, h') \<and> (\<exists>e. h' = h @ e)
    \<and> read_task h' b = Some (reset_task now t)
    \<and> fp_task h' b \<subseteq> fp_task h a \<union> {length h..<length h'}"
proof -
  from assms obtain obj ss g where l: "lookup h a = Some (TaskCell obj)"
    and g: "read_tags h (tags obj) = Some g" and t: "t = with_arrays obj ss g"
    by (auto simp: read_task_def split: option.splits cell.splits)
  define obj' where "obj' = obj\<lparr>current := 0, sessions := Some (length h), updatedAt := now\<rparr>"
  define h' where "h' = h @ [SessionsCell [], TaskCell obj']"
  define b where "b = Suc (length h)"
  have run: "reset_obj now a h = Some (b, h')"
    by (simp add: reset_obj_def l alloc_def obj'_def h'_def b_def)
  have lb: "lookup h' b = Some (TaskCell obj')"
    by (simp add: lookup_def h'_def b_def nth_append)
  have ls: "lookup h' (length h) = Some (SessionsCell [])"
    by (simp add: lookup_def h'_def)
  have rs: "read_sessions_field h' (sessions obj') = Some (Some [])"
    by (simp add: read_sessions_field_def read_sessions_def ls obj'_def)
  have rg: "read_tags h' (tags obj') = Some g"
    using read_tags_append [OF g] by (simp add: h'_def obj'_def)
  have "with_arrays obj' (Some []) g = reset_task now t"
    by (simp add: with_arrays_def reset_task_def t obj'_def)
  then have rt: "read_task h' b = Some (reset_task now t)"
    by (simp add: read_task_def lb rs rg)
  have "fp_task h' b = {b, tags obj, length h}"
    by (auto simp: fp_task_def lb obj'_def fp_sessions_def ls)
  moreover have "tags obj \<in> fp_task h a"
    by (simp add: fp_task_def l)
  moreover have "length h < length h'" "b < length h'" "length h \<le> b"
    by (simp_all add: h'_def b_def)
  ultimately have "fp_task h' b \<subseteq> fp_task h a \<union> {length h..<length h'}"
    by auto
  with run rt show ?thesis
    by (auto simp: h'_def)
qed

lemma map_store_reset_correct:
  assumes "those (map (read_task h) as) = Some ts"
  shows "\<exists>bs h'. map_store (reset_obj now) as h = Some (bs, h') \<and> (\<exists>e. h' = h @ e)
    \<and> those (map (read_task h') bs) = Some (map (reset_task now) ts)
    \<and> (\<forall>b\<in>set bs. fp_task h' b \<subseteq> \<Union> (set (map (fp_task h) as)) \<union> {length h..<length h'})"
  using assms
proof (induction as arbitrary: h ts)
  case Nil
  then show ?case by auto
next
  case (Cons a as)
  from Cons.prems obtain t ts' where ra: "read_task h a = Some t"
    and rs: "those (map (read_task h) as) = Some ts'" and ts: "ts = t # ts'"
    by (auto split: option.splits)
  from reset_obj_correct [OF ra, of now] obtain b h1 e1
    where run1: "reset_obj now a h = Some (b, h1)" and h1: "h1 = h @ e1"
      and rb: "read_task h1 b = Some (reset_task now t)"
      and fb: "fp_task h1 b \<subseteq> fp_task h a \<union> {length h..<length h1}"
    by blast
  from rs have rs1: "those (map (read_task h1) as) = Some ts'"
    unfolding h1 by (rule those_map_transfer) (rule read_task_append)
  from Cons.IH [OF rs1] obtain bs h2 e2
    where run2: "map_store (reset_obj now) as h1 = Some (bs, h2)" and h2: "h2 = h1 @ e2"
      and rbs: "those (map (read_task h2) bs) = Some (map (reset_task now) ts')"
      and fbs: "\<forall>x\<in>set bs. fp_task h2 x \<subseteq> \<Union> (set (map (fp_task h1) as)) \<union> {length h1..<length h2}"
    by blast
  have run: "map_store (reset_obj now) (a # as) h = Some (b # bs, h2)"
    by (simp add: run1 run2)
  have rb2: "read_task h2 b = Some (reset_task now t)"
    unfolding h2 using rb by (rule read_task_append)
  have fb2: "fp_task h2 b = fp_task h1 b"
    unfolding h2 using rb by (rule fp_task_append)
  have same: "fp_task h1 x = fp_task h x" if "x \<in> set as" for x
    using those_map_defined [OF rs that] unfolding h1 by (auto dest: fp_task_append)
  have len: "length h \<le> length h1" "length h1 \<le> length h2"
    by (simp_all add: h1 h2)
  have "fp_task h2 b \<subseteq> \<Union> (set (map (fp_task h) (a # as))) \<union> {length h..<length h2}"
    using fb fb2 len by auto
  moreover have "fp_task h2 x \<subseteq> \<Union> (set (map (fp_task h) (a # as))) \<union> {length h..<length h2}"
    if "x \<in> set bs" for x
  proof
    fix y assume "y \<in> fp_task h2 x"
    with fbs that have "y \<in> \<Union> (set (map (fp_task h1) as)) \<or> y \<in> {length h1..<length h2}"
      by blast
    then show "y \<in> \<Union> (set (map (fp_task h) (a # as))) \<union> {length h..<length h2}"
      using same len by auto
  qed
  ultimately have "\<forall>x\<in>set (b # bs).
      fp_task h2 x \<subseteq> \<Union> (set (map (fp_task h) (a # as))) \<union> {length h..<length h2}"
    by simp
  with run rb2 rbs show ?case
    by (auto simp: ts h1 h2)
qed

lemma reset_store_correct:
  assumes "read_tasks h a = Some ts"
  shows "\<exists>b h'. reset_store now a h = Some (b, h') \<and> (\<exists>e. h' = h @ e)
    \<and> read_tasks h' b = Some (map (reset_task now) ts)
    \<and> fp_tasks h' b \<subseteq> fp_tasks h a \<union> {length h..<length h'}"
proof -
  from assms obtain as where l: "lookup h a = Some (TasksCell as)"
    and t: "those (map (read_task h) as) = Some ts"
    by (auto simp: read_tasks_def split: option.splits cell.splits)
  from map_store_reset_correct [OF t, of now] obtain bs h1 e1
    where run1: "map_store (reset_obj now) as h = Some (bs, h1)" and h1: "h1 = h @ e1"
      and rbs: "those (map (read_task h1) bs) = Some (map (reset_task now) ts)"
      and fbs: "\<forall>b\<in>set bs. fp_task h1 b \<subseteq> \<Union> (set (map (fp_task h) as)) \<union> {length h..<length h1}"
    by blast
  define h' where "h' = h1 @ [TasksCell bs]"
  define b where "b = length h1"
  have run: "reset_store now a h = Some (b, h')"
    by (simp add: reset_store_def l run1 alloc_def h'_def b_def)
  have lb: "lookup h' b = Some (TasksCell bs)"
    by (simp add: lookup_def h'_def b_def)
  from rbs have "those (map (read_task h') bs) = Some (map (reset_task now) ts)"
    unfolding h'_def by (rule those_map_transfer) (rule read_task_append)
  then have rt: "read_tasks h' b = Some (map (reset_task now) ts)"
    by (simp add: read_tasks_def lb)
  have same: "fp_task h' x = fp_task h1 x" if "x \<in> set bs" for x
    using those_map_defined [OF rbs that] unfolding h'_def by (auto dest: fp_task_append)
  have fa: "fp_tasks h a = insert a (\<Union> (set (map (fp_task h) as)))"
    by (simp add: fp_tasks_def l)
  have fb: "fp_tasks h' b = insert b (\<Union> (set (map (fp_task h') bs)))"
    by (simp add: fp_tasks_def lb)
  have len: "length h \<le> b" "b < length h'" "length h1 \<le> length h'"
    by (simp_all add: h'_def b_def h1)
  have "fp_tasks h' b \<subseteq> fp_tasks h a \<union> {length h..<length h'}"
  proof
    fix y assume "y \<in> fp_tasks h' b"
    then consider "y = b" | x where "x \<in> set bs" "y \<in> fp_task h' x"
      by (auto simp: fb)
    then show "y \<in> fp_tasks h a \<union> {length h..<length h'}"
    proof cases
      case 1
      then show ?thesis using len by simp
    next
      case 2
      then have "y \<in> fp_task h1 x" using same by simp
      with fbs 2(1) have "y \<in> \<Union> (set (map (fp_task h) as)) \<or> y \<in> {length h..<length h1}"
        by blast
      then show ?thesis using len by (auto simp: fa)
    qed
  qed
  with run rt show ?thesis
    by (auto simp: h'_def h1)
qed

subsection \<open>Footprints after a write outside\<close>

lemma fp_sessions_update:
  assumes "x \<notin> fp_sessions h a"
  shows "fp_sessions (h[x := c]) a = fp_sessions h a"
proof -
  have "x \<noteq> a" using assms by (auto simp: fp_sessions_def)
  then show ?thesis
    by (simp add: fp_sessions_def lookup_update)
qed

lemma fp_task_update:
  assumes "x \<notin> fp_task h a"
  shows "fp_task (h[x := c]) a = fp_task h a"
proof -
  have xa: "x \<noteq> a" using assms by (auto simp: fp_task_def)
  show ?thesis
  proof (cases "lookup h a")
    case None
    then show ?thesis using xa by (simp add: fp_task_def lookup_update)
  next
    case (Some d)
    show ?thesis
    proof (cases d)
      case (TaskCell obj)
      have "fp_sessions (h[x := c]) sa = fp_sessions h sa" if "sessions obj = Some sa" for sa
        using assms Some TaskCell that by (intro fp_sessions_update) (auto simp: fp_task_def)
      then show ?thesis
        using Some TaskCell xa by (simp add: fp_task_def lookup_update split: option.splits)
    qed (use Some xa in \<open>simp_all add: fp_task_def lookup_update\<close>)
  qed
qed

lemma fp_tasks_update:
  assumes "x \<notin> fp_tasks h a"
  shows "fp_tasks (h[x := c]) a = fp_tasks h a"
proof -
  have xa: "x \<noteq> a" using assms by (auto simp: fp_tasks_def)
  show ?thesis
  proof (cases "lookup h a")
    case None
    then show ?thesis using xa by (simp add: fp_tasks_def lookup_update)
  next
    case (Some d)
    show ?thesis
    proof (cases d)
      case (TasksCell as)
      have "fp_task (h[x := c]) y = fp_task h y" if "y \<in> set as" for y
        using assms Some TasksCell that by (intro fp_task_update) (auto simp: fp_tasks_def)
      then have "map (fp_task (h[x := c])) as = map (fp_task h) as"
        by (intro map_cong) simp_all
      then have "\<Union> (set (map (fp_task (h[x := c])) as)) = \<Union> (set (map (fp_task h) as))"
        by (rule arg_cong)
      then show ?thesis
        using Some TasksCell xa by (simp add: fp_tasks_def lookup_update)
    qed (use Some xa in \<open>simp_all add: fp_tasks_def lookup_update\<close>)
  qed
qed

lemma read_tasks_ops:
  assumes "read_tasks h a = Some ts" and "writes_outside (fp_tasks h a) ops"
  shows "read_tasks (fold apply_op ops h) a = Some ts"
  using assms
proof (induction ops arbitrary: h)
  case Nil
  then show ?case by simp
next
  case (Cons op ops)
  show ?case
  proof (cases op)
    case (Write x c)
    with Cons.prems have x: "x \<notin> fp_tasks h a" and w: "writes_outside (fp_tasks h a) ops"
      by simp_all
    have "read_tasks (h[x := c]) a = Some ts"
      using Cons.prems(1) read_tasks_update [OF x] by simp
    moreover have "writes_outside (fp_tasks (h[x := c]) a) ops"
      using w fp_tasks_update [OF x] by simp
    ultimately show ?thesis
      using Cons.IH Write by simp
  next
    case (Alloc c)
    with Cons.prems have w: "writes_outside (fp_tasks h a) ops"
      by simp
    have "read_tasks (h @ [c]) a = Some ts"
      using Cons.prems(1) by (rule read_tasks_append)
    moreover have "writes_outside (fp_tasks (h @ [c]) a) ops"
      using w fp_tasks_append [OF Cons.prems(1)] by simp
    ultimately show ?thesis
      using Cons.IH Alloc by simp
  qed
qed

subsection \<open>Archive, then reset, in the store\<close>

lemma performEndDay_store_correct:
  assumes "read_tasks h live = Some ts"
  shows "\<exists>snap live' h'. performEndDay_store now live h = Some (snap, live', h')
     \<and> (\<exists>e. h' = h @ e)
     \<and> read_tasks h' snap = Some ts
     \<and> read_tasks h' live' = Some (map (reset_task now) ts)
     \<and> fp_tasks h' live = fp_tasks h live
     \<and> fp_tasks h' snap \<inter> (fp_tasks h' live \<union> fp_tasks h' live') = {}"
proof -
  obtain snap h1 where b: "build_tasks ts h = (snap, h1)"
    by (cases "build_tasks ts h")
  then have c: "json_copy_store live h = Some (snap, h1)"
    by (simp add: json_copy_store_def assms)
  from build_tasks_correct [OF b] obtain e1 where h1: "h1 = h @ e1"
    and rs: "read_tasks h1 snap = Some ts"
    and fs: "fp_tasks h1 snap \<subseteq> {length h..<length h1}"
    by blast
  have rl: "read_tasks h1 live = Some ts"
    unfolding h1 using assms by (rule read_tasks_append)
  have fl1: "fp_tasks h1 live = fp_tasks h live"
    unfolding h1 using assms by (rule fp_tasks_append)
  from reset_store_correct [OF rl, of now] obtain live' h2 e2
    where r: "reset_store now live h1 = Some (live', h2)" and h2: "h2 = h1 @ e2"
      and rr: "read_tasks h2 live' = Some (map (reset_task now) ts)"
      and fr: "fp_tasks h2 live' \<subseteq> fp_tasks h1 live \<union> {length h1..<length h2}"
    by blast
  have run: "performEndDay_store now live h = Some (snap, live', h2)"
    by (simp add: performEndDay_store_def c r)
  have ext: "\<exists>e. h2 = h @ e"
    by (simp add: h2 h1)
  have rs2: "read_tasks h2 snap = Some ts"
    unfolding h2 using rs by (rule read_tasks_append)
  have fs2: "fp_tasks h2 snap \<subseteq> {length h..<length h1}"
    using fp_tasks_append [OF rs, of e2] fs by (simp add: h2)
  have fl2: "fp_tasks h2 live = fp_tasks h live"
    using fp_tasks_append [OF rl, of e2] fl1 by (simp add: h2)
  have fl: "fp_tasks h live \<subseteq> {..<length h}"
    using assms by (rule fp_tasks_bound)
  have fr2: "fp_tasks h2 live' \<subseteq> {..<length h} \<union> {length h1..<length h2}"
    using fr fl fl1 by blast
  have "fp_tasks h2 snap \<inter> (fp_tasks h2 live \<union> fp_tasks h2 live') = {}"
    using fs2 fl2 fl fr2 by fastforce
  with run ext rs2 rr fl2 show ?thesis
    by blast
qed

text \<open>
  The store operation computes what the value operation computes: read back, the
  snapshot is the task list of the new day log and the reset array is the new task list
  of \<open>performEndDay\<close>.
\<close>

lemma performEndDay_store_refines:
  assumes "read_tasks h live = Some (tasks a)"
  shows "\<exists>snap live' h'. performEndDay_store now live h = Some (snap, live', h')
     \<and> read_tasks h' snap = Some (log_tasks (last (history (performEndDay ev q d now a))))
     \<and> read_tasks h' live' = Some (tasks (performEndDay ev q d now a))"
proof -
  from performEndDay_store_correct [OF assms, of now] obtain snap live' h'
    where "performEndDay_store now live h = Some (snap, live', h')"
      and "read_tasks h' snap = Some (tasks a)"
      and "read_tasks h' live' = Some (map (reset_task now) (tasks a))"
    by blast
  then show ?thesis
    by (simp add: performEndDay_def Let_def endDay_log_def json_copy_def)
qed

lemma ex_store_read: "read_tasks ex_store ex_live = Some [ex_session_task]"
  using build_tasks_correct [of "[ex_session_task]" "[]" ex_live ex_store]
  by (simp add: ex_live_def ex_store_def)

lemma ex_store_cells:
  "ex_live = 4"
  "ex_store =
     [SessionCell \<lparr>startTs = 1704067200000, endTs = 1704068700000, durationMs = 1500000\<rparr>,
      SessionsCell [0], TagsCell [''focus''],
      TaskCell (with_arrays ex_session_task (Some 1) 2), TasksCell [3]]"
  by (simp_all add: ex_live_def ex_store_def build_tasks_def build_task_def
      build_sessions_field_def build_sessions_def build_session_def alloc_def
      ex_session_task_def with_arrays_def)

lemma ex_store_footprint: "fp_tasks ex_store ex_live = {0, 1, 2, 3, 4}"
  by (auto simp: ex_store_cells fp_tasks_def fp_task_def fp_sessions_def lookup_def
      with_arrays_def)

text \<open>
  Claim C4. On both paths, the archive followed by the reset only allocates. The
  snapshot in the day log reads as the task list before the reset, with its \<open>current\<close>
  values and sessions. No cell of the snapshot is a cell of the live task list, neither
  of the list before the reset nor of the reset one. So any later sequence of
  allocations and of writes into cells outside the snapshot, in particular into any
  cell of the live lists, leaves the snapshot reading as it did.
\<close>

theorem snapshot_shares_nothing_with_live_tasks:
  assumes "read_tasks h live = Some ts"
  shows "\<exists>snap live' h'. performEndDay_store now live h = Some (snap, live', h')
     \<and> (hasProgress ts \<longrightarrow> automatic_rollover_store now live h = Some (Some snap, live', h'))
     \<and> (\<exists>e. h' = h @ e)
     \<and> read_tasks h' snap = Some (json_copy ts)
     \<and> read_tasks h' live' = Some (map (reset_task now) ts)
     \<and> fp_tasks h' live = fp_tasks h live
     \<and> fp_tasks h' snap \<inter> (fp_tasks h' live \<union> fp_tasks h' live') = {}
     \<and> (\<forall>ops. writes_outside (fp_tasks h' snap) ops \<longrightarrow>
            read_tasks (fold apply_op ops h') snap = Some (json_copy ts))"
proof -
  from performEndDay_store_correct [OF assms, of now] obtain snap live' h'
    where run: "performEndDay_store now live h = Some (snap, live', h')"
      and ext: "\<exists>e. h' = h @ e"
      and rs: "read_tasks h' snap = Some ts"
      and rr: "read_tasks h' live' = Some (map (reset_task now) ts)"
      and fl: "fp_tasks h' live = fp_tasks h live"
      and d: "fp_tasks h' snap \<inter> (fp_tasks h' live \<union> fp_tasks h' live') = {}"
    by blast
  have "automatic_rollover_store now live h = Some (Some snap, live', h')" if "hasProgress ts"
    using run that
    by (auto simp: automatic_rollover_store_def performEndDay_store_def assms
        split: option.splits prod.splits)
  moreover have "\<forall>ops. writes_outside (fp_tasks h' snap) ops \<longrightarrow>
            read_tasks (fold apply_op ops h') snap = Some ts"
    using read_tasks_ops [OF rs] by blast
  ultimately show ?thesis
    using run ext rs rr fl d by (auto simp: json_copy_def)
qed

text \<open>
  In the sample store the task has \<open>current = 25\<close> and one session. After the archive and
  the reset, the old task object at 3 is overwritten with a reset copy, its session
  object at 0 is overwritten, the live array at 4 is emptied and a cell is allocated:
  the snapshot still reads as the task with \<open>current = 25\<close> and its session.
\<close>

theorem snapshot_shares_nothing_with_live_tasks_witness:
  "read_tasks ex_store ex_live = Some [ex_session_task] \<and> hasProgress [ex_session_task]
   \<and> (\<exists>snap live' h'.
        performEndDay_store 1704153600000 ex_live ex_store = Some (snap, live', h')
      \<and> automatic_rollover_store 1704153600000 ex_live ex_store = Some (Some snap, live', h')
      \<and> read_tasks h' live' = Some [reset_task 1704153600000 ex_session_task]
      \<and> writes_outside (fp_tasks h' snap)
           [Write 3 (TaskCell (with_arrays (reset_task 1704153600000 ex_session_task) None 2)),
            Write 0 (SessionCell \<lparr>startTs = 0, endTs = 0, durationMs = 0\<rparr>),
            Write ex_live (TasksCell []), Alloc (TagsCell [])]
      \<and> read_tasks
           (fold apply_op
              [Write 3 (TaskCell (with_arrays (reset_task 1704153600000 ex_session_task) None 2)),
               Write 0 (SessionCell \<lparr>startTs = 0, endTs = 0, durationMs = 0\<rparr>),
               Write ex_live (TasksCell []), Alloc (TagsCell [])] h') snap
           = Some [ex_session_task])"
proof -
  have r: "read_tasks ex_store ex_live = Some [ex_session_task]"
    by (rule ex_store_read)
  have p: "hasProgress [ex_session_task]"
    by (simp add: hasProgress_def ex_session_task_def)
  from snapshot_shares_nothing_with_live_tasks [OF r, of 1704153600000] p obtain snap live' h'
    where run: "performEndDay_store 1704153600000 ex_live ex_store = Some (snap, live', h')"
      and auto: "automatic_rollover_store 1704153600000 ex_live ex_store
                   = Some (Some snap, live', h')"
      and rr: "read_tasks h' live' = Some (map (reset_task 1704153600000) [ex_session_task])"
      and fl: "fp_tasks h' ex_live = fp_tasks ex_store ex_live"
      and d: "fp_tasks h' snap \<inter> (fp_tasks h' ex_live \<union> fp_tasks h' live') = {}"
      and w: "\<forall>ops. writes_outside (fp_tasks h' snap) ops \<longrightarrow>
            read_tasks (fold apply_op ops h') snap = Some (json_copy [ex_session_task])"
    by blast
  have "fp_tasks h' ex_live = {0, 1, 2, 3, 4}"
    using fl by (simp only: ex_store_footprint)
  then have "{0, 3, ex_live} \<subseteq> fp_tasks h' ex_live"
    by (simp add: ex_store_cells(1))
  with d have o: "writes_outside (fp_tasks h' snap)
      [Write 3 (TaskCell (with_arrays (reset_task 1704153600000 ex_session_task) None 2)),
       Write 0 (SessionCell \<lparr>startTs = 0, endTs = 0, durationMs = 0\<rparr>),
       Write ex_live (TasksCell []), Alloc (TagsCell [])]"
    by auto
  with w have "read_tasks
      (fold apply_op
         [Write 3 (TaskCell (with_arrays (reset_task 1704153600000 ex_session_task) None 2)),
          Write 0 (SessionCell \<lparr>startTs = 0, endTs = 0, durationMs = 0\<rparr>),
          Write ex_live (TasksCell []), Alloc (TagsCell [])] h') snap
      = Some (json_copy [ex_session_task])"
    by blast
  with r p run auto rr o show ?thesis
    by (simp add: json_copy_def)
qed

end
